theory Spec2Isabelle
  imports Complex_Main "HOL-Library.Sublist"
begin

section \<open>Tokens and the token source\<close>

text \<open>
  The parser of \<^verbatim>\<open>src/parser.cpp\<close> reads its input through a \<^verbatim>\<open>Scanner\<close> object and
  writes instructions through a \<^verbatim>\<open>CodeGen\<close> object. Both classes live in files that are
  not part of the sources at hand (\<^verbatim>\<open>scanner.hpp\<close>, \<^verbatim>\<open>codegen.hpp\<close>); they are modelled
  below from the interface contracts of the specification and from the way the parser
  calls them. The token kinds are the enumerators the parser names.
\<close>

datatype Token =
    T_EOF | T_ILLEGAL | T_IDENTIFIER | T_NUMBER | T_RNUMBER
  | T_BEGIN | T_END | T_IF | T_THEN | T_ELSE | T_FI | T_WHILE | T_DO | T_OD
  | T_WRITE | T_READ | T_ASSIGN | T_ADDOP | T_MULOP | T_CMP
  | T_LPAREN | T_RPAREN | T_SEMICOLON | T_INT | T_FLOAT

datatype Arithmetic = A_PLUS | A_MINUS | A_MULTIPLY | A_DIVIDE

datatype Cmp = C_EQ | C_NE | C_LT | C_GT | C_LE | C_GE

text \<open>
  One element of the token stream: a token kind together with the decoded value the
  specification attaches to identifiers, literals and operator classes. The type \<open>'f\<close>
  stands for the values of the C++ type \<^verbatim>\<open>float\<close>; nothing is assumed about it.
\<close>

datatype 'f lexeme =
    L_IDENTIFIER string
  | L_NUMBER int
  | L_RNUMBER 'f
  | L_ADDOP Arithmetic
  | L_MULOP Arithmetic
  | L_CMP Cmp
  | L_TOKEN Token

text \<open>
  Modelled from the spec: the class \<^verbatim>\<open>Scanner\<close> (token source contract of section 6:
  a current token, \<^verbatim>\<open>advance\<close>, and decoded values). The parser reads a value with
  \<^verbatim>\<open>getIntValue()\<close>, \<^verbatim>\<open>getFloatValue()\<close>, \<^verbatim>\<open>getStringValue()\<close> \<^emph>\<open>after\<close> it has advanced
  past the token that carried it, so each value is kept in a field of the scanner
  until a later token of the same kind overwrites it. Once the input is exhausted the
  current token is \<open>T_EOF\<close> and stays so. Line numbers are left out.
\<close>

record 'f Scanner =
  token :: Token
  input :: "'f lexeme list"
  getIntValue :: int
  getFloatValue :: 'f
  getStringValue :: string
  getArithmeticValue :: Arithmetic
  getCmpValue :: Cmp

fun load_lexeme :: "'f lexeme \<Rightarrow> 'f Scanner \<Rightarrow> 'f Scanner" where
  "load_lexeme (L_IDENTIFIER n) sc = sc\<lparr>token := T_IDENTIFIER, getStringValue := n\<rparr>"
| "load_lexeme (L_NUMBER i) sc = sc\<lparr>token := T_NUMBER, getIntValue := i\<rparr>"
| "load_lexeme (L_RNUMBER x) sc = sc\<lparr>token := T_RNUMBER, getFloatValue := x\<rparr>"
| "load_lexeme (L_ADDOP a) sc = sc\<lparr>token := T_ADDOP, getArithmeticValue := a\<rparr>"
| "load_lexeme (L_MULOP a) sc = sc\<lparr>token := T_MULOP, getArithmeticValue := a\<rparr>"
| "load_lexeme (L_CMP c) sc = sc\<lparr>token := T_CMP, getCmpValue := c\<rparr>"
| "load_lexeme (L_TOKEN t) sc = sc\<lparr>token := t\<rparr>"

definition nextToken :: "'f Scanner \<Rightarrow> 'f Scanner" where
  "nextToken sc =
     (case input sc of
        [] \<Rightarrow> sc\<lparr>token := T_EOF\<rparr>
      | l # ls \<Rightarrow> load_lexeme l (sc\<lparr>input := ls\<rparr>))"

section \<open>Instructions and the code emitter\<close>

text \<open>
  The opcodes of the stack machine. \<open>NOP\<close> is the placeholder that \<^verbatim>\<open>reserve\<close> appends.
\<close>

datatype Opcode =
    NOP | STOP | LOAD | STORE | PUSH | JUMP | JUMP_NO
  | ADD | SUB | MULT | DIV | INVERT | COMPARE | PRINT | INPUT

text \<open>
  Operands. A C++ \<^verbatim>\<open>int\<close> operand is a known integer, the result of
  \<^verbatim>\<open>static_cast<int>\<close> applied to a float (kept symbolic), or \<open>Indeterminate\<close>, which
  stands for the \<^verbatim>\<open>int\<close> a caller reads after \<^verbatim>\<open>findVariable\<close> has left its body without
  a \<^verbatim>\<open>return\<close> (see \<open>findVariable\<close> below: that run has undefined behaviour). A float
  operand is a float value or \<^verbatim>\<open>static_cast<float>\<close> of an int (kept symbolic). C++
  \<^verbatim>\<open>int\<close> counters are unbounded integers here: the model is exact as long as fewer
  than \<open>2^31\<close> variables are declared and instructions emitted (beyond that the C++
  arithmetic is undefined).
\<close>

datatype 'f cint = CInt int | IntOfFloat 'f | Indeterminate

datatype 'f cfloat = CFloat 'f | FloatOfInt "'f cint"

datatype 'f Argument = NoArg | IntArg "'f cint" | FloatArg "'f cfloat"

type_synonym 'f Command = "Opcode \<times> 'f Argument"

text \<open>
  Modelled from the spec: the class \<^verbatim>\<open>CodeGen\<close> (code emitter contract of sections 4.2
  and 6). \<open>emit\<close> appends, \<open>reserve\<close> appends a placeholder and returns its address,
  \<open>emitAt\<close> overwrites the instruction at an address, \<open>getCurrentAddress\<close> is the address
  of the next instruction, \<open>flush\<close> writes the whole buffer to the output sink. The sink
  \<open>out\<close> (the \<^verbatim>\<open>output_\<close> of the source) is the list of the buffers written so far, one entry per call of \<open>flush\<close>.
\<close>

record 'f CodeGen =
  commandBuffer :: "'f Command list"
  out :: "'f Command list list"

definition emit :: "Opcode \<Rightarrow> 'f Argument \<Rightarrow> 'f CodeGen \<Rightarrow> 'f CodeGen" where
  "emit opc arg cg = cg\<lparr>commandBuffer := commandBuffer cg @ [(opc, arg)]\<rparr>"

definition emitAt :: "int \<Rightarrow> Opcode \<Rightarrow> 'f Argument \<Rightarrow> 'f CodeGen \<Rightarrow> 'f CodeGen" where
  "emitAt address opc arg cg =
     cg\<lparr>commandBuffer := (commandBuffer cg)[nat address := (opc, arg)]\<rparr>"

definition getCurrentAddress :: "'f CodeGen \<Rightarrow> int" where
  "getCurrentAddress cg = int (length (commandBuffer cg))"

definition reserve :: "'f CodeGen \<Rightarrow> int \<times> 'f CodeGen" where
  "reserve cg = (getCurrentAddress cg, emit NOP NoArg cg)"

definition flush :: "'f CodeGen \<Rightarrow> 'f CodeGen" where
  "flush cg = cg\<lparr>out := out cg @ [commandBuffer cg]\<rparr>"

section \<open>The parser state\<close>

text \<open>
  The diagnostics written to \<^verbatim>\<open>cerr\<close>, one constructor per message of the source
  (the line number prefix is left out; \<open>Unexpected found expected\<close> is the message
  of \<^verbatim>\<open>mustBe\<close>).
\<close>

datatype diagnostic =
    StatementExpected
  | ExpressionExpected
  | ComparisonExpected
  | NotDeclared string
  | AlreadyDeclared string
  | Unexpected Token Token

type_synonym Variable = "int \<times> bool"

text \<open>
  The fields of class \<^verbatim>\<open>Parser\<close>, named as in the source without the trailing
  underscore (which a name cannot end with here). \<open>cerr\<close> is the error stream. \<open>addVariableLog\<close> is a
  ghost field that no branch reads: it lists the names passed to \<^verbatim>\<open>addVariable\<close>, in
  call order, so that "the number of calls made before" can be stated.
  \<open>undefinedBehaviour\<close> is a second ghost field that no branch reads and nothing clears:
  it is set when control leaves \<^verbatim>\<open>findVariable\<close> without a \<^verbatim>\<open>return\<close>.
\<close>

record 'f Parser =
  scanner :: "'f Scanner"
  codegen :: "'f CodeGen"
  error :: bool
  cerr :: "diagnostic list"
  variables :: "string \<rightharpoonup> Variable"
  lastVar :: Variable
  isFloatCast :: "bool list"
  lastToken :: Token
  addVariableLog :: "string list"
  undefinedBehaviour :: bool

definition see :: "Token \<Rightarrow> 'f Parser \<Rightarrow> bool" where
  "see t p = (token (scanner p) = t)"

definition match :: "Token \<Rightarrow> 'f Parser \<Rightarrow> bool \<times> 'f Parser" where
  "match t p =
     (if token (scanner p) = t then (True, p\<lparr>scanner := nextToken (scanner p)\<rparr>)
      else (False, p))"

definition "next" :: "'f Parser \<Rightarrow> 'f Parser" where
  "next p = p\<lparr>lastToken := token (scanner p), scanner := nextToken (scanner p)\<rparr>"

definition reportError :: "diagnostic \<Rightarrow> 'f Parser \<Rightarrow> 'f Parser" where
  "reportError message p = p\<lparr>cerr := cerr p @ [message], error := True\<rparr>"

definition on_codegen :: "('f CodeGen \<Rightarrow> 'f CodeGen) \<Rightarrow> 'f Parser \<Rightarrow> 'f Parser" where
  "on_codegen f p = p\<lparr>codegen := f (codegen p)\<rparr>"

definition codegen_reserve :: "'f Parser \<Rightarrow> int \<times> 'f Parser" where
  "codegen_reserve p = (fst (reserve (codegen p)), p\<lparr>codegen := snd (reserve (codegen p))\<rparr>)"

text \<open>The number of tokens still to be consumed, the current one included.\<close>

definition remaining :: "'f Parser \<Rightarrow> nat" where
  "remaining p =
     length (input (scanner p)) + (if token (scanner p) = T_EOF then 0 else 1)"

lemma remaining_nextToken_le:
  "remaining (p\<lparr>scanner := nextToken (scanner p)\<rparr>) \<le> remaining p"
  by (cases "input (scanner p)"; cases "hd (input (scanner p))")
     (auto simp: remaining_def nextToken_def)

lemma remaining_nextToken_less:
  "token (scanner p) \<noteq> T_EOF \<Longrightarrow>
   remaining (p\<lparr>scanner := nextToken (scanner p)\<rparr>) < remaining p"
  by (cases "input (scanner p)"; cases "hd (input (scanner p))")
     (auto simp: remaining_def nextToken_def)

lemma remaining_next_le: "remaining (next p) \<le> remaining p"
  using remaining_nextToken_le [of p] by (simp add: next_def remaining_def)

lemma remaining_next_less: "token (scanner p) \<noteq> T_EOF \<Longrightarrow> remaining (next p) < remaining p"
  using remaining_nextToken_less [of p] by (simp add: next_def remaining_def)

text \<open>
  \<^verbatim>\<open>recover(t)\<close>: skip tokens until \<open>t\<close> or the end of the input is the current token,
  then consume \<open>t\<close> if it was found.
\<close>

function recover_skip :: "Token \<Rightarrow> 'f Parser \<Rightarrow> 'f Parser" where
  "recover_skip t p = (if \<not> see t p \<and> \<not> see T_EOF p then recover_skip t (next p) else p)"
  by pat_completeness auto
termination
  by (relation "measure (\<lambda>(t, p). remaining p)") (auto simp: see_def remaining_next_less)

declare recover_skip.simps [simp del]

definition recover :: "Token \<Rightarrow> 'f Parser \<Rightarrow> 'f Parser" where
  "recover t p = (let p1 = recover_skip t p in if see t p1 then next p1 else p1)"

definition mustBe :: "Token \<Rightarrow> 'f Parser \<Rightarrow> 'f Parser" where
  "mustBe t p =
     (if \<not> fst (match t p) then
        (let p1 = (snd (match t p))\<lparr>error := True\<rparr>;
             p2 = reportError (Unexpected (token (scanner p1)) t) p1
         in recover t p2)
      else snd (match t p))"

text \<open>
  \<^verbatim>\<open>findVariable\<close>. When the name is found the stored address is returned. When it is
  absent the source reports the error and control reaches the end of the body of a
  function that returns \<^verbatim>\<open>int\<close> without a \<^verbatim>\<open>return\<close> statement: the behaviour of the run
  is undefined from here on. The function marks the parser with \<open>undefinedBehaviour\<close> and
  hands the caller \<open>Indeterminate\<close>. What the procedures compute from a marked parser is
  the continuation of a build that returns to the caller with some value; a theorem
  describes the program on a run only as far as the parser is not marked.
\<close>

definition findVariable :: "string \<Rightarrow> 'f Parser \<Rightarrow> 'f cint \<times> 'f Parser" where
  "findVariable var p =
     (case variables p var of
        None \<Rightarrow>
          (Indeterminate, (reportError (NotDeclared var) p)\<lparr>undefinedBehaviour := True\<rparr>)
      | Some v \<Rightarrow> (CInt (fst v), p))"

definition addVariable :: "string \<Rightarrow> bool \<Rightarrow> 'f Parser \<Rightarrow> int \<times> 'f Parser" where
  "addVariable var isFloat p =
     (let p0 = p\<lparr>addVariableLog := addVariableLog p @ [var]\<rparr>;
          p1 = (case variables p0 var of
                  None \<Rightarrow>
                    (let p' = p0\<lparr>lastVar := (fst (lastVar p0), isFloat)\<rparr>
                     in p'\<lparr>variables := (variables p')(var \<mapsto> lastVar p')\<rparr>)
                | Some v \<Rightarrow> reportError (AlreadyDeclared var) p0)
      in (fst (lastVar p1), p1\<lparr>lastVar := (fst (lastVar p1) + 1, snd (lastVar p1))\<rparr>))"

lemma remaining_recover_skip_le: "remaining (recover_skip t p) \<le> remaining p"
proof (induction t p rule: recover_skip.induct)
  case (1 t p)
  show ?case
  proof (cases "\<not> see t p \<and> \<not> see T_EOF p")
    case True
    then have "remaining (recover_skip t (next p)) \<le> remaining (next p)"
      using "1.IH" by simp
    also have "\<dots> \<le> remaining p" by (rule remaining_next_le)
    finally show ?thesis using True by (subst recover_skip.simps) simp
  next
    case False
    then show ?thesis by (subst recover_skip.simps) auto
  qed
qed

lemma remaining_reportError [simp]: "remaining (reportError m p) = remaining p"
  by (simp add: remaining_def reportError_def)

lemma remaining_on_codegen [simp]: "remaining (on_codegen f p) = remaining p"
  by (simp add: remaining_def on_codegen_def)

lemma remaining_codegen_reserve [simp]: "remaining (snd (codegen_reserve p)) = remaining p"
  by (simp add: remaining_def codegen_reserve_def)

lemma remaining_findVariable [simp]: "remaining (snd (findVariable v p)) = remaining p"
  by (simp add: findVariable_def remaining_def reportError_def split: option.split)

lemma remaining_addVariable [simp]: "remaining (snd (addVariable v b p)) = remaining p"
  by (simp add: addVariable_def remaining_def reportError_def Let_def split: option.split)

lemma remaining_isFloatCast_update [simp]: "remaining (p\<lparr>isFloatCast := c\<rparr>) = remaining p"
  by (simp add: remaining_def)

lemma remaining_match_le: "remaining (snd (match t p)) \<le> remaining p"
  using remaining_nextToken_le [of p] by (simp add: match_def)

lemma remaining_match_less:
  "fst (match t p) \<Longrightarrow> t \<noteq> T_EOF \<Longrightarrow> remaining (snd (match t p)) < remaining p"
  using remaining_nextToken_less [of p] by (auto simp: match_def split: if_splits)

lemma remaining_recover_le: "remaining (recover t p) \<le> remaining p"
proof -
  have "remaining (next (recover_skip t p)) \<le> remaining (recover_skip t p)"
    by (rule remaining_next_le)
  then show ?thesis
    using remaining_recover_skip_le [of t p] by (auto simp: recover_def Let_def)
qed

lemma remaining_mustBe_le: "remaining (mustBe t p) \<le> remaining p"
proof (cases "fst (match t p)")
  case True
  then show ?thesis using remaining_match_le [of t p] by (simp add: mustBe_def)
next
  case False
  then have m: "snd (match t p) = p" by (simp add: match_def split: if_splits)
  have "remaining (recover t (reportError (Unexpected (token (scanner p)) t) (p\<lparr>error := True\<rparr>)))
          \<le> remaining (reportError (Unexpected (token (scanner p)) t) (p\<lparr>error := True\<rparr>))"
    by (rule remaining_recover_le)
  also have "\<dots> = remaining p" by (simp add: remaining_def reportError_def)
  finally show ?thesis using False m by (simp add: mustBe_def Let_def)
qed

section \<open>The recursive-descent procedures\<close>

text \<open>
  One function per procedure of \<^verbatim>\<open>src/parser.cpp\<close>, each taking the parser object and
  returning it updated. The three \<^verbatim>\<open>while\<close> loops (in \<^verbatim>\<open>statementList\<close>,
  \<^verbatim>\<open>expression\<close> and \<^verbatim>\<open>term\<close>) are the functions with suffix \<open>_while\<close>. A call that
  returns a value returns the pair of the value and the parser. \<open>cmp_code\<close> is the
  \<^verbatim>\<open>switch\<close> of \<^verbatim>\<open>relation\<close>.
\<close>

fun cmp_code :: "Cmp \<Rightarrow> int" where
  "cmp_code C_EQ = 0"
| "cmp_code C_NE = 1"
| "cmp_code C_LT = 2"
| "cmp_code C_GT = 3"
| "cmp_code C_LE = 4"
| "cmp_code C_GE = 5"

function statementList :: "'f Parser \<Rightarrow> 'f Parser"
  and statementList_while :: "'f Parser \<Rightarrow> 'f Parser"
  and statement :: "'f Parser \<Rightarrow> 'f Parser"
  and relation :: "'f Parser \<Rightarrow> 'f Parser"
  and expression :: "'f Parser \<Rightarrow> 'f Parser"
  and expression_while :: "'f Parser \<Rightarrow> 'f Parser"
  and "term" :: "'f Parser \<Rightarrow> 'f Parser"
  and term_while :: "'f Parser \<Rightarrow> 'f Parser"
  and factor :: "'f Parser \<Rightarrow> 'f Parser"
where
  "statementList p =
     (if see T_END p \<or> see T_OD p \<or> see T_ELSE p \<or> see T_FI p then p
      else statementList_while p)"
| "statementList_while p =
     (let p1 = statement p;
          more = fst (match T_SEMICOLON p1);
          p2 = snd (match T_SEMICOLON p1)
      in if more then statementList_while p2 else p2)"
| "statement p =
     (if fst (match T_INT p) then
        (let p1 = mustBe T_IDENTIFIER (snd (match T_INT p));
             declared = addVariable (getStringValue (scanner p1)) False p1;
             varAddress = fst declared;
             p2 = snd declared;
             p3 = mustBe T_ASSIGN p2;
             p4 = expression p3
         in on_codegen (emit STORE (IntArg (CInt varAddress))) p4)
      else if fst (match T_FLOAT p) then
        (let p1 = mustBe T_IDENTIFIER (snd (match T_FLOAT p));
             declared = addVariable (getStringValue (scanner p1)) True p1;
             varAddress = fst declared;
             p2 = snd declared;
             p3 = mustBe T_ASSIGN p2;
             p4 = expression p3
         in on_codegen (emit STORE (IntArg (CInt varAddress))) p4)
      else if fst (match T_IDENTIFIER p) then
        (let p1 = snd (match T_IDENTIFIER p);
             found = findVariable (getStringValue (scanner p1)) p1;
             varAddress = fst found;
             p2 = snd found;
             p3 = mustBe T_ASSIGN p2;
             p4 = expression p3
         in on_codegen (emit STORE (IntArg varAddress)) p4)
      else if fst (match T_IF p) then
        (let p1 = relation (snd (match T_IF p));
             reservedNo = codegen_reserve p1;
             jumpNoAddress = fst reservedNo;
             p2 = snd reservedNo;
             p3 = mustBe T_THEN p2;
             p4 = statementList p3
         in if fst (match T_ELSE p4) then
              (let reserved = codegen_reserve (snd (match T_ELSE p4));
                   jumpAddress = fst reserved;
                   p5 = snd reserved;
                   p6 = on_codegen (emitAt jumpNoAddress JUMP_NO
                          (IntArg (CInt (getCurrentAddress (codegen p5))))) p5;
                   p7 = statementList p6;
                   p8 = on_codegen (emitAt jumpAddress JUMP
                          (IntArg (CInt (getCurrentAddress (codegen p7))))) p7
               in mustBe T_FI p8)
            else
              (let p5 = snd (match T_ELSE p4);
                   p6 = on_codegen (emitAt jumpNoAddress JUMP_NO
                          (IntArg (CInt (getCurrentAddress (codegen p5))))) p5
               in mustBe T_FI p6))
      else if fst (match T_WHILE p) then
        (let p0 = snd (match T_WHILE p);
             conditionAddress = getCurrentAddress (codegen p0);
             p1 = relation p0;
             reservedNo = codegen_reserve p1;
             jumpNoAddress = fst reservedNo;
             p2 = snd reservedNo;
             p3 = mustBe T_DO p2;
             p4 = statementList p3;
             p5 = mustBe T_OD p4;
             p6 = on_codegen (emit JUMP (IntArg (CInt conditionAddress))) p5
         in on_codegen (emitAt jumpNoAddress JUMP_NO
              (IntArg (CInt (getCurrentAddress (codegen p6))))) p6)
      else if fst (match T_WRITE p) then
        (let p1 = mustBe T_LPAREN (snd (match T_WRITE p));
             p2 = expression p1;
             p3 = mustBe T_RPAREN p2
         in on_codegen (emit PRINT NoArg) p3)
      else reportError StatementExpected p)"
| "relation p =
     (let p1 = expression p
      in if see T_CMP p1 then
           (let cmp = getCmpValue (scanner p1);
                p2 = next p1;
                p3 = expression p2
            in on_codegen (emit COMPARE (IntArg (CInt (cmp_code cmp)))) p3)
         else reportError ComparisonExpected p1)"
| "expression p = expression_while (term p)"
| "expression_while p =
     (if see T_ADDOP p then
        (let op = getArithmeticValue (scanner p);
             p1 = next p;
             p2 = term p1;
             p3 = (if op = A_PLUS then on_codegen (emit ADD NoArg) p2
                   else on_codegen (emit SUB NoArg) p2)
         in expression_while p3)
      else p)"
| "term p = term_while (factor p)"
| "term_while p =
     (if see T_MULOP p then
        (let op = getArithmeticValue (scanner p);
             p1 = next p;
             p2 = factor p1;
             p3 = (if op = A_MULTIPLY then on_codegen (emit MULT NoArg) p2
                   else on_codegen (emit DIV NoArg) p2)
         in term_while p3)
      else p)"
| "factor p =
     (if see T_NUMBER p then
        (let p1 = next p;
             p2 = (if see T_ADDOP p1 \<or> see T_MULOP p1 \<or> see T_CMP p1 then
                     (if isFloatCast p1 \<noteq> [] then
                        (if hd (isFloatCast p1) then
                           on_codegen (emit PUSH
                             (FloatArg (FloatOfInt (CInt (getIntValue (scanner p1)))))) p1
                         else p1)
                      else on_codegen (emit PUSH (IntArg (CInt (getIntValue (scanner p1))))) p1)
                   else if snd (lastVar p1) then
                     on_codegen (emit PUSH
                       (FloatArg (FloatOfInt (CInt (getIntValue (scanner p1)))))) p1
                   else on_codegen (emit PUSH (IntArg (CInt (getIntValue (scanner p1))))) p1)
         in p2\<lparr>isFloatCast := []\<rparr>)
      else if see T_RNUMBER p then
        (if lastToken p = T_MULOP \<or> lastToken p = T_ADDOP \<or> lastToken p = T_CMP then
           next (on_codegen (emit PUSH (FloatArg (CFloat (getFloatValue (scanner p))))) p)
         else
           (let p1 = next p;
                p2 = (if see T_ADDOP p1 \<or> see T_MULOP p1 \<or> see T_CMP p1 then
                        (if isFloatCast p1 \<noteq> [] then
                           (if list_ex (\<lambda>s. \<not> s) (isFloatCast p1) then
                              (let val = IntOfFloat (getFloatValue (scanner p1))
                               in if hd (isFloatCast p1) then
                                    on_codegen (emit PUSH (FloatArg (FloatOfInt val))) p1
                                  else on_codegen (emit PUSH (IntArg val)) p1)
                            else p1)
                         else on_codegen (emit PUSH
                                (FloatArg (CFloat (getFloatValue (scanner p1))))) p1)
                      else if snd (lastVar p1) then
                        (if list_ex (\<lambda>s. \<not> s) (isFloatCast p1) then
                           (let val = IntOfFloat (getFloatValue (scanner p1))
                            in on_codegen (emit PUSH (FloatArg (FloatOfInt val))) p1)
                         else on_codegen (emit PUSH
                                (FloatArg (CFloat (getFloatValue (scanner p1))))) p1)
                      else on_codegen (emit PUSH
                             (IntArg (IntOfFloat (getFloatValue (scanner p1))))) p1)
            in p2\<lparr>isFloatCast := []\<rparr>))
      else if see T_IDENTIFIER p then
        (let found = findVariable (getStringValue (scanner p)) p;
             varAddress = fst found;
             p1 = snd found;
             p2 = next p1
         in on_codegen (emit LOAD (IntArg varAddress)) p2)
      else if see T_ADDOP p \<and> getArithmeticValue (scanner p) = A_MINUS then
        (let p1 = next p;
             p2 = factor p1
         in on_codegen (emit INVERT NoArg) p2)
      else if fst (match T_LPAREN p) then
        (let p0 = snd (match T_LPAREN p)
         in if see T_INT p0 then
              (let p1 = next p0;
                   p2 = p1\<lparr>isFloatCast := isFloatCast p1 @ [False]\<rparr>;
                   p3 = mustBe T_RPAREN p2
               in expression p3)
            else if see T_FLOAT p0 then
              (let p1 = next p0;
                   p2 = p1\<lparr>isFloatCast := isFloatCast p1 @ [True]\<rparr>;
                   p3 = mustBe T_RPAREN p2
               in expression p3)
            else
              (let p1 = p0\<lparr>isFloatCast := []\<rparr>;
                   p2 = expression p1
               in mustBe T_RPAREN p2))
      else if fst (match T_READ p) then
        on_codegen (emit INPUT NoArg) (snd (match T_READ p))
      else reportError ExpressionExpected p)"
  apply pat_completeness
  apply (simp_all only: sum.inject sum.distinct)
  done


abbreviation (input) "pdom \<equiv> statementList_statementList_while_statement_relation_expression_expression_while_term_term_while_factor_dom"

lemma le_next: "remaining p \<le> n \<Longrightarrow> remaining (next p) \<le> n"
  using remaining_next_le [of p] by simp

lemma le_match: "remaining p \<le> n \<Longrightarrow> remaining (snd (match t p)) \<le> n"
  using remaining_match_le [of t p] by simp

lemma le_mustBe: "remaining p \<le> n \<Longrightarrow> remaining (mustBe t p) \<le> n"
  using remaining_mustBe_le [of t p] by simp

lemmas le_prims = le_next le_match le_mustBe


lemma remaining_partial:
  "pdom (Inl (Inl (Inl p1))) \<Longrightarrow> \<forall>n. remaining (p1 :: 'f Parser) \<le> n \<longrightarrow> remaining (statementList p1) \<le> n"
  "pdom (Inl (Inl (Inr p2))) \<Longrightarrow> \<forall>n. remaining (p2 :: 'f Parser) \<le> n \<longrightarrow> remaining (statementList_while p2) \<le> n"
  "pdom (Inl (Inr (Inl p3))) \<Longrightarrow> \<forall>n. remaining (p3 :: 'f Parser) \<le> n \<longrightarrow> remaining (statement p3) \<le> n"
  "pdom (Inl (Inr (Inr p4))) \<Longrightarrow> \<forall>n. remaining (p4 :: 'f Parser) \<le> n \<longrightarrow> remaining (relation p4) \<le> n"
  "pdom (Inr (Inl (Inl p5))) \<Longrightarrow> \<forall>n. remaining (p5 :: 'f Parser) \<le> n \<longrightarrow> remaining (expression p5) \<le> n"
  "pdom (Inr (Inl (Inr p6))) \<Longrightarrow> \<forall>n. remaining (p6 :: 'f Parser) \<le> n \<longrightarrow> remaining (expression_while p6) \<le> n"
  "pdom (Inr (Inr (Inl p7))) \<Longrightarrow> \<forall>n. remaining (p7 :: 'f Parser) \<le> n \<longrightarrow> remaining (term p7) \<le> n"
  "pdom (Inr (Inr (Inr (Inl p8)))) \<Longrightarrow> \<forall>n. remaining (p8 :: 'f Parser) \<le> n \<longrightarrow> remaining (term_while p8) \<le> n"
  "pdom (Inr (Inr (Inr (Inr p9)))) \<Longrightarrow> \<forall>n. remaining (p9 :: 'f Parser) \<le> n \<longrightarrow> remaining (factor p9) \<le> n"
proof (induct p1 and p2 and p3 and p4 and p5 and p6 and p7 and p8 and p9 rule: statementList_statementList_while_statement_relation_expression_expression_while_term_term_while_factor.pinduct)
  case (1 p) then show ?case by (simp add: statementList.psimps)
next
  case (2 p) then show ?case by (simp add: statementList_while.psimps Let_def le_prims)
next
  case (3 p) then show ?case by (simp add: statement.psimps Let_def le_prims split_beta)
next
  case (4 p) then show ?case by (simp add: relation.psimps Let_def le_prims)
next
  case (5 p) then show ?case by (simp add: expression.psimps)
next
  case (6 p) then show ?case by (simp add: expression_while.psimps Let_def le_prims)
next
  case (7 p) then show ?case by (simp add: "term.psimps")
next
  case (8 p) then show ?case by (simp add: term_while.psimps Let_def le_prims)
next
  case (9 p) then show ?case by (simp add: factor.psimps Let_def le_prims split_beta)
qed


lemma lt_next: "remaining p < n \<Longrightarrow> remaining (next p) < n"
  using remaining_next_le [of p] by simp

lemma lt_match: "remaining p < n \<Longrightarrow> remaining (snd (match t p)) < n"
  using remaining_match_le [of t p] by simp

lemma lt_mustBe: "remaining p < n \<Longrightarrow> remaining (mustBe t p) < n"
  using remaining_mustBe_le [of t p] by simp

lemma lt_next_strict: "token (scanner p) \<noteq> T_EOF \<Longrightarrow> remaining p \<le> n \<Longrightarrow> remaining (next p) < n"
  using remaining_next_less [of p] by simp

lemma lt_match_strict:
  "fst (match t p) \<Longrightarrow> t \<noteq> T_EOF \<Longrightarrow> remaining p \<le> n \<Longrightarrow> remaining (snd (match t p)) < n"
  using remaining_match_less [of t p] by simp

lemmas lt_prims = lt_next_strict lt_match_strict lt_next lt_match lt_mustBe

lemma remaining_partial_lt:
  "pdom (Inl (Inl (Inl p))) \<Longrightarrow> remaining p < n \<Longrightarrow> remaining (statementList p) < n"
  "pdom (Inl (Inl (Inr p))) \<Longrightarrow> remaining p < n \<Longrightarrow> remaining (statementList_while p) < n"
  "pdom (Inl (Inr (Inl p))) \<Longrightarrow> remaining p < n \<Longrightarrow> remaining (statement p) < n"
  "pdom (Inl (Inr (Inr p))) \<Longrightarrow> remaining p < n \<Longrightarrow> remaining (relation p) < n"
  "pdom (Inr (Inl (Inl p))) \<Longrightarrow> remaining p < n \<Longrightarrow> remaining (expression p) < n"
  "pdom (Inr (Inl (Inr p))) \<Longrightarrow> remaining p < n \<Longrightarrow> remaining (expression_while p) < n"
  "pdom (Inr (Inr (Inl p))) \<Longrightarrow> remaining p < n \<Longrightarrow> remaining (term p) < n"
  "pdom (Inr (Inr (Inr (Inl p)))) \<Longrightarrow> remaining p < n \<Longrightarrow> remaining (term_while p) < n"
  "pdom (Inr (Inr (Inr (Inr p)))) \<Longrightarrow> remaining p < n \<Longrightarrow> remaining (factor p) < n"
  using remaining_partial [of p] by (auto dest: le_less_trans)

lemma remaining_partial_le:
  "pdom (Inl (Inl (Inl p))) \<Longrightarrow> remaining p \<le> n \<Longrightarrow> remaining (statementList p) \<le> n"
  "pdom (Inl (Inl (Inr p))) \<Longrightarrow> remaining p \<le> n \<Longrightarrow> remaining (statementList_while p) \<le> n"
  "pdom (Inl (Inr (Inl p))) \<Longrightarrow> remaining p \<le> n \<Longrightarrow> remaining (statement p) \<le> n"
  "pdom (Inl (Inr (Inr p))) \<Longrightarrow> remaining p \<le> n \<Longrightarrow> remaining (relation p) \<le> n"
  "pdom (Inr (Inl (Inl p))) \<Longrightarrow> remaining p \<le> n \<Longrightarrow> remaining (expression p) \<le> n"
  "pdom (Inr (Inl (Inr p))) \<Longrightarrow> remaining p \<le> n \<Longrightarrow> remaining (expression_while p) \<le> n"
  "pdom (Inr (Inr (Inl p))) \<Longrightarrow> remaining p \<le> n \<Longrightarrow> remaining (term p) \<le> n"
  "pdom (Inr (Inr (Inr (Inl p)))) \<Longrightarrow> remaining p \<le> n \<Longrightarrow> remaining (term_while p) \<le> n"
  "pdom (Inr (Inr (Inr (Inr p)))) \<Longrightarrow> remaining p \<le> n \<Longrightarrow> remaining (factor p) \<le> n"
  using remaining_partial [of p] by auto

termination statementList
  apply (relation "(\<lambda>x. remaining (case x of
            Inl (Inl (Inl p)) \<Rightarrow> p | Inl (Inl (Inr p)) \<Rightarrow> p
          | Inl (Inr (Inl p)) \<Rightarrow> p | Inl (Inr (Inr p)) \<Rightarrow> p
          | Inr (Inl (Inl p)) \<Rightarrow> p | Inr (Inl (Inr p)) \<Rightarrow> p
          | Inr (Inr (Inl p)) \<Rightarrow> p | Inr (Inr (Inr (Inl p))) \<Rightarrow> p
          | Inr (Inr (Inr (Inr p))) \<Rightarrow> p))
      <*mlex*> measure (\<lambda>x. case x of
            Inl (Inl (Inl p)) \<Rightarrow> 8 | Inl (Inl (Inr p)) \<Rightarrow> 7
          | Inl (Inr (Inl p)) \<Rightarrow> 6 | Inl (Inr (Inr p)) \<Rightarrow> 5
          | Inr (Inl (Inl p)) \<Rightarrow> 4 | Inr (Inl (Inr p)) \<Rightarrow> 3
          | Inr (Inr (Inl p)) \<Rightarrow> 2 | Inr (Inr (Inr (Inl p))) \<Rightarrow> Suc 0
          | Inr (Inr (Inr (Inr p))) \<Rightarrow> 0)")
                      apply (rule wf_mlex, rule wf_measure)
                      apply (simp_all add: mlex_prod_def see_def
      lt_prims le_prims remaining_partial_lt remaining_partial_le flip: order_le_less)
  done

declare statementList.simps [simp del] statementList_while.simps [simp del]
  statement.simps [simp del] relation.simps [simp del] expression.simps [simp del]
  expression_while.simps [simp del] "term.simps" [simp del] term_while.simps [simp del]
  factor.simps [simp del]

definition program :: "'f Parser \<Rightarrow> 'f Parser" where
  "program p =
     (let p1 = mustBe T_BEGIN p;
          p2 = statementList p1;
          p3 = mustBe T_END p2
      in on_codegen (emit STOP NoArg) p3)"

definition parse :: "'f Parser \<Rightarrow> 'f Parser" where
  "parse p = (let p1 = program p in if \<not> error p1 then on_codegen flush p1 else p1)"

text \<open>
  The constructor of \<^verbatim>\<open>Parser\<close>: a fresh code generator, no error, an empty symbol
  table, \<open>lastVar = (0, False)\<close>, an empty cast list, and one call of \<^verbatim>\<open>next()\<close>, which
  reads the first token. The argument is the scanner as constructed on the input.
\<close>

definition new_Parser :: "'f Scanner \<Rightarrow> 'f Parser" where
  "new_Parser sc =
     next \<lparr>scanner = sc, codegen = \<lparr>commandBuffer = [], out = []\<rparr>, error = False,
           cerr = [], variables = Map.empty, lastVar = (0, False), isFloatCast = [],
           lastToken = token sc, addVariableLog = [], undefinedBehaviour = False\<rparr>"

text \<open>
  A scanner constructed on a token stream, before the first token is read. The fields
  that hold decoded values start with the given float and with zero, the empty string
  and the first enumerators.
\<close>

definition new_Scanner :: "'f \<Rightarrow> 'f lexeme list \<Rightarrow> 'f Scanner" where
  "new_Scanner x ls =
     \<lparr>token = T_EOF, input = ls, getIntValue = 0, getFloatValue = x, getStringValue = [],
      getArithmeticValue = A_PLUS, getCmpValue = C_EQ\<rparr>"

text \<open>The whole run on a token stream.\<close>

definition compile :: "'f \<Rightarrow> 'f lexeme list \<Rightarrow> 'f Parser" where
  "compile x ls = parse (new_Parser (new_Scanner x ls))"

section \<open>Programs and states used as concrete inputs\<close>

text \<open>The instruction sequence accumulated so far.\<close>

definition code :: "'f Parser \<Rightarrow> 'f Command list" where
  "code p = commandBuffer (codegen p)"

text \<open>
  Programs are given as token streams. The sign \<^verbatim>\<open>=\<close> after a declared or assigned name
  is the assignment token of the grammar of the specification, the sign \<^verbatim>\<open>=\<close> between
  two expressions of a condition is the comparison \<open>C_EQ\<close>.

  \<^verbatim>\<open>begin int x = (float) 3; write(x) end\<close>
\<close>

definition cast_program :: "real lexeme list" where
  "cast_program =
     [L_TOKEN T_BEGIN, L_TOKEN T_INT, L_IDENTIFIER ''x'', L_TOKEN T_ASSIGN,
      L_TOKEN T_LPAREN, L_TOKEN T_FLOAT, L_TOKEN T_RPAREN, L_NUMBER 3, L_TOKEN T_SEMICOLON,
      L_TOKEN T_WRITE, L_TOKEN T_LPAREN, L_IDENTIFIER ''x'', L_TOKEN T_RPAREN, L_TOKEN T_END]"

text \<open>
  The state in which \<^verbatim>\<open>factor\<close> meets the literal of \<^verbatim>\<open>(float) 3;\<close>: the cast has been
  pushed, the literal is the current token and no float variable has been declared.
\<close>

definition cast_literal_state :: "real Parser" where
  "cast_literal_state =
     (new_Parser (new_Scanner 0 [L_NUMBER 3, L_TOKEN T_SEMICOLON]))\<lparr>isFloatCast := [True]\<rparr>"

text \<open>\<^verbatim>\<open>begin float x = (int) 3 end\<close>\<close>

definition int_cast_program :: "real lexeme list" where
  "int_cast_program =
     [L_TOKEN T_BEGIN, L_TOKEN T_FLOAT, L_IDENTIFIER ''x'', L_TOKEN T_ASSIGN,
      L_TOKEN T_LPAREN, L_TOKEN T_INT, L_TOKEN T_RPAREN, L_NUMBER 3, L_TOKEN T_END]"

text \<open>
  The state in which \<^verbatim>\<open>factor\<close> meets the literal of \<^verbatim>\<open>float x = (int) 3 end\<close>: the cast
  has been pushed, the literal is the current token and the variable declared last is a
  float at address 0.
\<close>

definition int_cast_literal_state :: "real Parser" where
  "int_cast_literal_state =
     (new_Parser (new_Scanner 0 [L_NUMBER 3, L_TOKEN T_END]))
       \<lparr>lastVar := (1, True), isFloatCast := [False]\<rparr>"

text \<open>
  The state in which \<^verbatim>\<open>factor\<close> meets the literal \<^verbatim>\<open>2.5\<close> of \<^verbatim>\<open>(int) 2.5 + 1\<close>, the
  cast pushed.
\<close>

definition int_cast_operand_state :: "real Parser" where
  "int_cast_operand_state =
     (new_Parser (new_Scanner 0 [L_RNUMBER 2.5, L_ADDOP A_PLUS, L_NUMBER 1]))
       \<lparr>isFloatCast := [False]\<rparr>"

text \<open>
  \<^verbatim>\<open>begin float x = (int) - 2.5 end\<close> and
  \<^verbatim>\<open>begin float x = (int) - 2.5; float y = 1.5 end\<close>
\<close>

definition negated_cast_program :: "real lexeme list" where
  "negated_cast_program =
     [L_TOKEN T_BEGIN, L_TOKEN T_FLOAT, L_IDENTIFIER ''x'', L_TOKEN T_ASSIGN,
      L_TOKEN T_LPAREN, L_TOKEN T_INT, L_TOKEN T_RPAREN, L_ADDOP A_MINUS, L_RNUMBER 2.5,
      L_TOKEN T_END]"

definition leak_program :: "real lexeme list" where
  "leak_program =
     [L_TOKEN T_BEGIN, L_TOKEN T_FLOAT, L_IDENTIFIER ''x'', L_TOKEN T_ASSIGN,
      L_TOKEN T_LPAREN, L_TOKEN T_INT, L_TOKEN T_RPAREN, L_ADDOP A_MINUS, L_RNUMBER 2.5,
      L_TOKEN T_SEMICOLON,
      L_TOKEN T_FLOAT, L_IDENTIFIER ''y'', L_TOKEN T_ASSIGN, L_RNUMBER 1.5, L_TOKEN T_END]"

text \<open>\<^verbatim>\<open>begin float x = 1.5; float z = (int) x + read; float y = 2.5 end\<close>\<close>

definition stale_token_program :: "real lexeme list" where
  "stale_token_program =
     [L_TOKEN T_BEGIN, L_TOKEN T_FLOAT, L_IDENTIFIER ''x'', L_TOKEN T_ASSIGN, L_RNUMBER 1.5,
      L_TOKEN T_SEMICOLON,
      L_TOKEN T_FLOAT, L_IDENTIFIER ''z'', L_TOKEN T_ASSIGN,
      L_TOKEN T_LPAREN, L_TOKEN T_INT, L_TOKEN T_RPAREN, L_IDENTIFIER ''x'', L_ADDOP A_PLUS,
      L_TOKEN T_READ, L_TOKEN T_SEMICOLON,
      L_TOKEN T_FLOAT, L_IDENTIFIER ''y'', L_TOKEN T_ASSIGN, L_RNUMBER 2.5, L_TOKEN T_END]"

text \<open>\<^verbatim>\<open>begin int x = 1; while x < 5 do x = x + 1 od; write(x) end\<close>\<close>

definition while_program :: "real lexeme list" where
  "while_program =
     [L_TOKEN T_BEGIN, L_TOKEN T_INT, L_IDENTIFIER ''x'', L_TOKEN T_ASSIGN, L_NUMBER 1,
      L_TOKEN T_SEMICOLON,
      L_TOKEN T_WHILE, L_IDENTIFIER ''x'', L_CMP C_LT, L_NUMBER 5, L_TOKEN T_DO,
      L_IDENTIFIER ''x'', L_TOKEN T_ASSIGN, L_IDENTIFIER ''x'', L_ADDOP A_PLUS, L_NUMBER 1,
      L_TOKEN T_OD, L_TOKEN T_SEMICOLON,
      L_TOKEN T_WRITE, L_TOKEN T_LPAREN, L_IDENTIFIER ''x'', L_TOKEN T_RPAREN, L_TOKEN T_END]"

text \<open>\<^verbatim>\<open>begin if 1 = 2 then write(1) else write(2) fi end\<close>\<close>

definition if_program :: "real lexeme list" where
  "if_program =
     [L_TOKEN T_BEGIN, L_TOKEN T_IF, L_NUMBER 1, L_CMP C_EQ, L_NUMBER 2, L_TOKEN T_THEN,
      L_TOKEN T_WRITE, L_TOKEN T_LPAREN, L_NUMBER 1, L_TOKEN T_RPAREN, L_TOKEN T_ELSE,
      L_TOKEN T_WRITE, L_TOKEN T_LPAREN, L_NUMBER 2, L_TOKEN T_RPAREN, L_TOKEN T_FI,
      L_TOKEN T_END]"


text \<open>A state in which \<^verbatim>\<open>x\<close> has been declared as an int, at address 0.\<close>

definition declared_state :: "real Parser" where
  "declared_state =
     snd (addVariable ''x'' False (new_Parser (new_Scanner 0 [L_TOKEN T_END])))"

text \<open>\<^verbatim>\<open>begin write(1 +) end\<close>\<close>

definition syntax_error_program :: "real lexeme list" where
  "syntax_error_program =
     [L_TOKEN T_BEGIN, L_TOKEN T_WRITE, L_TOKEN T_LPAREN, L_NUMBER 1, L_ADDOP A_PLUS,
      L_TOKEN T_RPAREN, L_TOKEN T_END]"

text \<open>
  The error flag is set exactly when a diagnostic has been written, and nothing has been
  flushed.
\<close>

definition error_inv :: "'f Parser \<Rightarrow> bool" where
  "error_inv p \<longleftrightarrow> (error p \<longleftrightarrow> cerr p \<noteq> []) \<and> out (codegen p) = []"

text \<open>\<^verbatim>\<open>begin int x = 1; int x = 2; int y = 3 end\<close>\<close>

definition redeclaration_program :: "real lexeme list" where
  "redeclaration_program =
     [L_TOKEN T_BEGIN, L_TOKEN T_INT, L_IDENTIFIER ''x'', L_TOKEN T_ASSIGN, L_NUMBER 1,
      L_TOKEN T_SEMICOLON,
      L_TOKEN T_INT, L_IDENTIFIER ''x'', L_TOKEN T_ASSIGN, L_NUMBER 2, L_TOKEN T_SEMICOLON,
      L_TOKEN T_INT, L_IDENTIFIER ''y'', L_TOKEN T_ASSIGN, L_NUMBER 3, L_TOKEN T_END]"

text \<open>
  A state in which \<^verbatim>\<open>x\<close> has been declared and the declaration \<^verbatim>\<open>int x = 2\<close> is about to
  be parsed.
\<close>

definition redeclaring_state :: "real Parser" where
  "redeclaring_state =
     snd (addVariable ''x'' False
       (new_Parser (new_Scanner 0
          [L_TOKEN T_INT, L_IDENTIFIER ''x'', L_TOKEN T_ASSIGN, L_NUMBER 2, L_TOKEN T_END])))"

text \<open>
  The position of the first call of \<^verbatim>\<open>addVariable\<close> that names a variable: the number of
  calls made before it.
\<close>

definition first_index :: "string \<Rightarrow> string list \<Rightarrow> nat" where
  "first_index name calls = length (takeWhile (\<lambda>n. n \<noteq> name) calls)"

text \<open>
  The number of calls of \<^verbatim>\<open>addVariable\<close> in a log whose name had been passed by an earlier
  call: the redeclarations.
\<close>

definition redeclarations :: "string list \<Rightarrow> nat" where
  "redeclarations calls = length (filter (\<lambda>i. calls ! i \<in> set (take i calls)) [0..<length calls])"

text \<open>
  The invariant of the symbol table: the address counter is the number of calls of
  \<^verbatim>\<open>addVariable\<close>, the names bound are the names passed, and each is bound to the
  position of the first call that passed it.
\<close>

definition vars_inv :: "'f Parser \<Rightarrow> bool" where
  "vars_inv p \<longleftrightarrow>
     fst (lastVar p) = int (length (addVariableLog p)) \<and>
     (\<forall>name. name \<in> set (addVariableLog p) \<longleftrightarrow> variables p name \<noteq> None) \<and>
     (\<forall>name a fl. variables p name = Some (a, fl) \<longrightarrow>
        a = int (first_index name (addVariableLog p)))"

text \<open>
  The state in which \<^verbatim>\<open>statement\<close> meets the \<^verbatim>\<open>if\<close> of
  \<^verbatim>\<open>begin if 1 = 2 then write(1) else write(2) fi end\<close>.
\<close>

definition if_statement_state :: "real Parser" where
  "if_statement_state = mustBe T_BEGIN (new_Parser (new_Scanner 0 if_program))"



text \<open>
  Either the run has been marked as undefined, or no instruction of the buffer carries
  the indeterminate address.
\<close>

definition determinate :: "'f Parser \<Rightarrow> bool" where
  "determinate p \<longleftrightarrow>
     undefinedBehaviour p \<or> (\<forall>c \<in> set (code p). snd c \<noteq> IntArg Indeterminate)"

section \<open>Facts about the primitive operations\<close>

lemma code_on_codegen_emit [simp]:
  "code (on_codegen (emit opc arg) p) = code p @ [(opc, arg)]"
  by (simp add: code_def on_codegen_def emit_def)

lemma code_next [simp]: "code (next p) = code p"
  by (simp add: code_def next_def)

lemma code_isFloatCast_update [simp]: "code (p\<lparr>isFloatCast := c\<rparr>) = code p"
  by (simp add: code_def)

lemma code_reportError [simp]: "code (reportError m p) = code p"
  by (simp add: code_def reportError_def)

lemma isFloatCast_on_codegen [simp]: "isFloatCast (on_codegen f p) = isFloatCast p"
  by (simp add: on_codegen_def)

lemma isFloatCast_next [simp]: "isFloatCast (next p) = isFloatCast p"
  by (simp add: next_def)

lemma lastVar_next [simp]: "lastVar (next p) = lastVar p"
  by (simp add: next_def)

lemma cerr_next [simp]: "cerr (next p) = cerr p"
  by (simp add: next_def)

lemma cerr_on_codegen [simp]: "cerr (on_codegen f p) = cerr p"
  by (simp add: on_codegen_def)

lemma getIntValue_next:
  "token (scanner (next p)) \<noteq> T_NUMBER \<Longrightarrow>
   getIntValue (scanner (next p)) = getIntValue (scanner p)"
  by (cases "input (scanner p)"; cases "hd (input (scanner p))")
     (auto simp: next_def nextToken_def)

lemma getFloatValue_next:
  "token (scanner (next p)) \<noteq> T_RNUMBER \<Longrightarrow>
   getFloatValue (scanner (next p)) = getFloatValue (scanner p)"
  by (cases "input (scanner p)"; cases "hd (input (scanner p))")
     (auto simp: next_def nextToken_def)

lemma list_ex_not_hd: "c \<noteq> [] \<Longrightarrow> \<not> hd c \<Longrightarrow> list_ex (\<lambda>s. \<not> s) c"
  by (cases c) auto

lemma fst_match_iff: "fst (match t p) \<longleftrightarrow> token (scanner p) = t"
  by (simp add: match_def)

lemma code_match [simp]: "code (snd (match t p)) = code p"
  by (simp add: match_def code_def)

lemma code_recover_skip [simp]: "code (recover_skip t p) = code p"
proof (induction t p rule: recover_skip.induct)
  case (1 t p)
  then show ?case by (subst recover_skip.simps) simp
qed

lemma code_mustBe [simp]: "code (mustBe t p) = code p"
proof -
  have "code (p\<lparr>error := True\<rparr>) = code p" by (simp add: code_def)
  then show ?thesis
    by (simp add: mustBe_def recover_def Let_def) (simp add: match_def)
qed

lemma code_findVariable [simp]: "code (snd (findVariable v p)) = code p"
  by (simp add: findVariable_def code_def reportError_def split: option.split)

lemma code_addVariable [simp]: "code (snd (addVariable v b p)) = code p"
  by (simp add: addVariable_def Let_def code_def reportError_def split: option.split)

lemma code_emitAt [simp]:
  "code (on_codegen (emitAt i opc a) p) = (code p)[nat i := (opc, a)]"
  by (simp add: code_def on_codegen_def emitAt_def)

lemma code_codegen_reserve [simp]:
  "code (snd (codegen_reserve p)) = code p @ [(NOP, NoArg)]"
  "fst (codegen_reserve p) = int (length (code p))"
  by (simp_all add: code_def codegen_reserve_def reserve_def emit_def getCurrentAddress_def)

lemma getCurrentAddress_code [simp]: "getCurrentAddress (codegen p) = int (length (code p))"
  by (simp add: code_def getCurrentAddress_def)

lemma prefix_list_update: "prefix c xs \<Longrightarrow> length c \<le> i \<Longrightarrow> prefix c (xs[i := v])"
  by (auto simp: prefix_def list_update_append)

lemma prefix_nth: "prefix xs ys \<Longrightarrow> i < length xs \<Longrightarrow> ys ! i = xs ! i"
  by (auto simp: prefix_def nth_append)

section \<open>Invariants of the recursive descent\<close>

text \<open>
  A property of the parser object that every elementary step keeps is kept by every
  procedure. The elementary steps are: advancing the scanner, recording the last token,
  writing the command buffer, writing the cast list, reporting an error (with or without
  the extra assignment to the error flag in \<^verbatim>\<open>mustBe\<close>), \<^verbatim>\<open>addVariable\<close> and
  \<^verbatim>\<open>findVariable\<close>.
\<close>

lemmas parser_induct =
  statementList_statementList_while_statement_relation_expression_expression_while_term_term_while_factor.induct

lemma prims_preserve:
  fixes P :: "'f Parser \<Rightarrow> bool"
  assumes sc: "\<And>p s. P p \<Longrightarrow> P (p\<lparr>scanner := s\<rparr>)"
    and lt: "\<And>p t. P p \<Longrightarrow> P (p\<lparr>lastToken := t\<rparr>)"
    and cb: "\<And>p c. P p \<Longrightarrow> P (p\<lparr>codegen := (codegen p)\<lparr>commandBuffer := c\<rparr>\<rparr>)"
    and re: "\<And>p m. P p \<Longrightarrow> P (reportError m p)"
    and mb: "\<And>p m. P p \<Longrightarrow> P (reportError m (p\<lparr>error := True\<rparr>))"
  shows "P p \<Longrightarrow> P (next p)"
    and "P p \<Longrightarrow> P (snd (match t p))"
    and "P p \<Longrightarrow> P (mustBe t p)"
    and "P p \<Longrightarrow> P (on_codegen (emit opc a) p)"
    and "P p \<Longrightarrow> P (on_codegen (emitAt i opc a) p)"
    and "P p \<Longrightarrow> P (snd (codegen_reserve p))"
proof -
  have nx: "P (next p)" if "P p" for p
  proof -
    have "next p = (p\<lparr>lastToken := token (scanner p)\<rparr>)\<lparr>scanner := nextToken (scanner p)\<rparr>"
      by (simp add: next_def)
    then show ?thesis using that sc lt by simp
  qed
  have mt: "P (snd (match t p))" if "P p" for t p
    using that sc by (simp add: match_def)
  have sk: "P p \<longrightarrow> P (recover_skip t p)" for t p
  proof (induction t p rule: recover_skip.induct)
    case (1 t p)
    then show ?case using nx by (subst recover_skip.simps) simp
  qed
  have rc: "P (recover t p)" if "P p" for t p
    using that sk nx by (simp add: recover_def Let_def)
  have mu: "P (mustBe t p)" if "P p" for t p
  proof (cases "fst (match t p)")
    case True
    then show ?thesis using mt that by (simp add: mustBe_def)
  next
    case False
    then have "snd (match t p) = p" by (simp add: match_def split: if_splits)
    then show ?thesis using False rc mb that by (simp add: mustBe_def Let_def)
  qed
  show "P p \<Longrightarrow> P (next p)" by (rule nx)
  show "P p \<Longrightarrow> P (snd (match t p))" by (rule mt)
  show "P p \<Longrightarrow> P (mustBe t p)" by (rule mu)
  show "P p \<Longrightarrow> P (on_codegen (emit opc a) p)"
    using cb [of p] by (simp add: on_codegen_def emit_def)
  show "P p \<Longrightarrow> P (on_codegen (emitAt i opc a) p)"
    using cb [of p] by (simp add: on_codegen_def emitAt_def)
  show "P p \<Longrightarrow> P (snd (codegen_reserve p))"
    using cb [of p] by (simp add: codegen_reserve_def reserve_def emit_def)
qed

lemma parser_preserves:
  fixes P :: "'f Parser \<Rightarrow> bool"
  assumes sc: "\<And>p s. P p \<Longrightarrow> P (p\<lparr>scanner := s\<rparr>)"
    and lt: "\<And>p t. P p \<Longrightarrow> P (p\<lparr>lastToken := t\<rparr>)"
    and cb: "\<And>p c. P p \<Longrightarrow> P (p\<lparr>codegen := (codegen p)\<lparr>commandBuffer := c\<rparr>\<rparr>)"
    and re: "\<And>p m. P p \<Longrightarrow> P (reportError m p)"
    and mb: "\<And>p m. P p \<Longrightarrow> P (reportError m (p\<lparr>error := True\<rparr>))"
    and fc: "\<And>p c. P p \<Longrightarrow> P (p\<lparr>isFloatCast := c\<rparr>)"
    and av: "\<And>p v b. P p \<Longrightarrow> P (snd (addVariable v b p))"
    and fv: "\<And>p v. P p \<Longrightarrow> P (snd (findVariable v p))"
  shows "P p1 \<longrightarrow> P (statementList p1)"
    and "P p2 \<longrightarrow> P (statementList_while p2)"
    and "P p3 \<longrightarrow> P (statement p3)"
    and "P p4 \<longrightarrow> P (relation p4)"
    and "P p5 \<longrightarrow> P (expression p5)"
    and "P p6 \<longrightarrow> P (expression_while p6)"
    and "P p7 \<longrightarrow> P (term p7)"
    and "P p8 \<longrightarrow> P (term_while p8)"
    and "P p9 \<longrightarrow> P (factor p9)"
proof -
  note prims = prims_preserve [of P, OF sc lt cb re mb] fc re av fv
  show "P p1 \<longrightarrow> P (statementList p1)"
    and "P p2 \<longrightarrow> P (statementList_while p2)"
    and "P p3 \<longrightarrow> P (statement p3)"
    and "P p4 \<longrightarrow> P (relation p4)"
    and "P p5 \<longrightarrow> P (expression p5)"
    and "P p6 \<longrightarrow> P (expression_while p6)"
    and "P p7 \<longrightarrow> P (term p7)"
    and "P p8 \<longrightarrow> P (term_while p8)"
    and "P p9 \<longrightarrow> P (factor p9)"
  proof (induct p1 and p2 and p3 and p4 and p5 and p6 and p7 and p8 and p9 rule: parser_induct)
    case (1 p) then show ?case by (simp add: statementList.simps)
  next
    case (2 p) then show ?case by (subst statementList_while.simps) (simp add: Let_def prims)
  next
    case (3 p) then show ?case by (subst statement.simps) (simp add: Let_def prims)
  next
    case (4 p) then show ?case by (subst relation.simps) (simp add: Let_def prims)
  next
    case (5 p) then show ?case by (simp add: expression.simps)
  next
    case (6 p) then show ?case by (subst expression_while.simps) (simp add: Let_def prims)
  next
    case (7 p) then show ?case by (simp add: "term.simps")
  next
    case (8 p) then show ?case by (subst term_while.simps) (simp add: Let_def prims)
  next
    case (9 p) then show ?case by (subst factor.simps) (simp add: Let_def prims)
  qed
qed

lemma program_preserves:
  fixes P :: "'f Parser \<Rightarrow> bool"
  assumes sc: "\<And>p s. P p \<Longrightarrow> P (p\<lparr>scanner := s\<rparr>)"
    and lt: "\<And>p t. P p \<Longrightarrow> P (p\<lparr>lastToken := t\<rparr>)"
    and cb: "\<And>p c. P p \<Longrightarrow> P (p\<lparr>codegen := (codegen p)\<lparr>commandBuffer := c\<rparr>\<rparr>)"
    and re: "\<And>p m. P p \<Longrightarrow> P (reportError m p)"
    and mb: "\<And>p m. P p \<Longrightarrow> P (reportError m (p\<lparr>error := True\<rparr>))"
    and fc: "\<And>p c. P p \<Longrightarrow> P (p\<lparr>isFloatCast := c\<rparr>)"
    and av: "\<And>p v b. P p \<Longrightarrow> P (snd (addVariable v b p))"
    and fv: "\<And>p v. P p \<Longrightarrow> P (snd (findVariable v p))"
    and init: "P p"
  shows "P (program p)"
proof -
  note prims = prims_preserve [of P, OF sc lt cb re mb]
  have "P (mustBe T_BEGIN p)" using init by (simp add: prims)
  then have "P (statementList (mustBe T_BEGIN p))"
    using parser_preserves(1) [of P, OF sc lt cb re mb fc av fv] by blast
  then have "P (mustBe T_END (statementList (mustBe T_BEGIN p)))" by (simp add: prims)
  then show ?thesis by (simp add: program_def Let_def prims)
qed

section \<open>Literal coercion\<close>

text \<open>
  C1 (as stated, refuted): for \<^verbatim>\<open>begin int x = (float) 3; write(x) end\<close> the parser is
  claimed to record no error and to push the literal 3 as a floating-point value. It
  records no error, but the first instruction is the integer push and no floating-point
  push of 3 is emitted.
\<close>

theorem C1_counterexample:
  "cerr (compile 0 cast_program) = [] \<and>
   code (compile 0 cast_program) ! 0 = (PUSH, IntArg (CInt 3)) \<and>
   (PUSH, FloatArg (FloatOfInt (CInt 3))) \<notin> set (code (compile 0 cast_program))"
  by code_simp

text \<open>
  C1 (amended): for \<^verbatim>\<open>begin int x = (float) 3; write(x) end\<close> the parser records zero
  errors and emits the literal 3 as an integer push. The reason is the order of the
  tests in \<^verbatim>\<open>factor\<close>: an integer literal that is not followed by an operator takes its
  representation from the float flag of the variable declared last, whatever casts are
  pending, and the pending casts are then discarded.
\<close>

theorem C1_amended:
  "cerr (compile 0 cast_program) = [] \<and>
   code (compile 0 cast_program) =
     [(PUSH, IntArg (CInt 3)), (STORE, IntArg (CInt 0)), (LOAD, IntArg (CInt 0)),
      (PRINT, NoArg), (STOP, NoArg)] \<and>
   (see T_NUMBER p \<and> \<not> see T_ADDOP (next p) \<and> \<not> see T_MULOP (next p) \<and> \<not> see T_CMP (next p)
      \<longrightarrow> isFloatCast (factor p) = [] \<and>
          code (factor p) = code p @
            [(PUSH, if snd (lastVar p)
                      then FloatArg (FloatOfInt (CInt (getIntValue (scanner (next p)))))
                    else IntArg (CInt (getIntValue (scanner (next p)))))])"
proof -
  have "cerr (compile 0 cast_program) = []"
    by code_simp
  moreover have "code (compile 0 cast_program) =
     [(PUSH, IntArg (CInt 3)), (STORE, IntArg (CInt 0)), (LOAD, IntArg (CInt 0)),
      (PRINT, NoArg), (STOP, NoArg)]"
    by code_simp
  moreover have "isFloatCast (factor p) = [] \<and>
          code (factor p) = code p @
            [(PUSH, if snd (lastVar p)
                      then FloatArg (FloatOfInt (CInt (getIntValue (scanner (next p)))))
                    else IntArg (CInt (getIntValue (scanner (next p)))))]"
    if "see T_NUMBER p" "\<not> see T_ADDOP (next p)" "\<not> see T_MULOP (next p)" "\<not> see T_CMP (next p)"
    using that by (simp add: factor.simps Let_def)
  ultimately show ?thesis by blast
qed

text \<open>
  The general part of C1 (amended) at the literal of \<^verbatim>\<open>(float) 3;\<close> with the cast pending.
\<close>

theorem C1_amended_witness:
  "see T_NUMBER cast_literal_state \<and> \<not> see T_ADDOP (next cast_literal_state) \<and>
   \<not> see T_MULOP (next cast_literal_state) \<and> \<not> see T_CMP (next cast_literal_state) \<and>
   isFloatCast cast_literal_state = [True] \<and>
   code (factor cast_literal_state) = [(PUSH, IntArg (CInt 3))]"
proof -
  have h: "see T_NUMBER cast_literal_state \<and> \<not> see T_ADDOP (next cast_literal_state) \<and>
   \<not> see T_MULOP (next cast_literal_state) \<and> \<not> see T_CMP (next cast_literal_state)"
    by code_simp
  have c: "isFloatCast cast_literal_state = [True]" by code_simp
  have v: "code cast_literal_state = [] \<and> snd (lastVar cast_literal_state) = False \<and>
      getIntValue (scanner (next cast_literal_state)) = 3" by code_simp
  from C1_amended [of cast_literal_state] h v c show ?thesis by simp
qed

text \<open>
  C2 (as stated, refuted): every numeric literal parsed while an \<^verbatim>\<open>(int)\<close> cast is pending
  is claimed to be pushed exactly once, as an integer. In \<^verbatim>\<open>begin float x = (int) 3 end\<close>
  the literal 3 is parsed with the cast pending and is pushed as a floating-point value;
  the last three conjuncts show the step of \<^verbatim>\<open>factor\<close> at that literal.
\<close>

theorem C2_counterexample:
  "cerr (compile 0 int_cast_program) = [] \<and>
   code (compile 0 int_cast_program) =
     [(PUSH, FloatArg (FloatOfInt (CInt 3))), (STORE, IntArg (CInt 0)), (STOP, NoArg)] \<and>
   isFloatCast int_cast_literal_state = [False] \<and>
   see T_NUMBER int_cast_literal_state \<and>
   code (factor int_cast_literal_state) = [(PUSH, FloatArg (FloatOfInt (CInt 3)))]"
  by code_simp

text \<open>
  The test of lines 219-224 reads the field \<open>lastToken\<close>, which only \<^verbatim>\<open>next()\<close> writes:
  \<^verbatim>\<open>match\<close> and \<^verbatim>\<open>mustBe\<close> consume tokens without recording them. The field therefore need
  not hold the token directly before the literal. In
  \<^verbatim>\<open>begin float x = 1.5; float z = (int) x + read; float y = 2.5 end\<close> the literal \<^verbatim>\<open>2.5\<close>
  follows \<^verbatim>\<open>=\<close>, but the field still holds the \<^verbatim>\<open>+\<close> of the declaration before and the
  cast \<^verbatim>\<open>(int)\<close> of that declaration is still pending: the literal takes the early
  return and is pushed as it is.
\<close>

lemma lastToken_stale:
  "cerr (compile 0 stale_token_program) = [] \<and>
   code (compile 0 stale_token_program) =
     [(PUSH, FloatArg (CFloat 1.5)), (STORE, IntArg (CInt 0)),
      (LOAD, IntArg (CInt 0)), (INPUT, NoArg), (ADD, NoArg), (STORE, IntArg (CInt 1)),
      (PUSH, FloatArg (CFloat 2.5)), (STORE, IntArg (CInt 2)), (STOP, NoArg)] \<and>
   isFloatCast (compile 0 stale_token_program) = [False]"
  by code_simp

text \<open>
  C2 (amended): let a numeric literal be parsed while the coercion context is non-empty
  with outermost (first) entry \<open>False\<close>. Suppose the literal is integer-form and followed
  neither by an operator nor by another integer literal; or suppose it is float-form,
  the field \<open>lastToken\<close> (the token consumed by the latest call of \<^verbatim>\<open>next()\<close>, which is not
  always the token directly before the literal) is not an operator, and the literal is
  not followed by another float literal. Then exactly one push is emitted for it. Its
  operand is the integer value of the literal (for a float-form literal the value
  converted to int) when an operator follows or when the variable declared last is not
  a float; when no operator follows and the variable declared last is a float, the
  operand is that integer value converted to floating point. (An integer-form literal
  followed by an operator, and a float-form literal met while \<open>lastToken\<close> is an
  operator, are not covered.)
\<close>

theorem C2_amended:
  assumes "isFloatCast p \<noteq> []" and "\<not> hd (isFloatCast p)"
  shows "(see T_NUMBER p \<and> \<not> see T_ADDOP (next p) \<and> \<not> see T_MULOP (next p) \<and>
           \<not> see T_CMP (next p) \<and> \<not> see T_NUMBER (next p) \<longrightarrow>
         code (factor p) = code p @
           [(PUSH, if snd (lastVar p) then FloatArg (FloatOfInt (CInt (getIntValue (scanner p))))
                   else IntArg (CInt (getIntValue (scanner p))))]) \<and>
        (see T_RNUMBER p \<and> lastToken p \<noteq> T_MULOP \<and> lastToken p \<noteq> T_ADDOP \<and>
           lastToken p \<noteq> T_CMP \<and> \<not> see T_RNUMBER (next p) \<longrightarrow>
         code (factor p) = code p @
           [(PUSH, if see T_ADDOP (next p) \<or> see T_MULOP (next p) \<or> see T_CMP (next p)
                     then IntArg (IntOfFloat (getFloatValue (scanner p)))
                   else if snd (lastVar p)
                     then FloatArg (FloatOfInt (IntOfFloat (getFloatValue (scanner p))))
                   else IntArg (IntOfFloat (getFloatValue (scanner p))))])"
proof -
  have ex: "list_ex (\<lambda>s. \<not> s) (isFloatCast p)"
    using assms by (rule list_ex_not_hd)
  have "see T_NUMBER p \<and> \<not> see T_ADDOP (next p) \<and> \<not> see T_MULOP (next p) \<and>
           \<not> see T_CMP (next p) \<and> \<not> see T_NUMBER (next p) \<longrightarrow>
         code (factor p) = code p @
           [(PUSH, if snd (lastVar p) then FloatArg (FloatOfInt (CInt (getIntValue (scanner p))))
                   else IntArg (CInt (getIntValue (scanner p))))]"
    using getIntValue_next [of p] by (simp add: factor.simps Let_def see_def)
  moreover have "see T_RNUMBER p \<and> lastToken p \<noteq> T_MULOP \<and> lastToken p \<noteq> T_ADDOP \<and>
           lastToken p \<noteq> T_CMP \<and> \<not> see T_RNUMBER (next p) \<longrightarrow>
         code (factor p) = code p @
           [(PUSH, if see T_ADDOP (next p) \<or> see T_MULOP (next p) \<or> see T_CMP (next p)
                     then IntArg (IntOfFloat (getFloatValue (scanner p)))
                   else if snd (lastVar p)
                     then FloatArg (FloatOfInt (IntOfFloat (getFloatValue (scanner p))))
                   else IntArg (IntOfFloat (getFloatValue (scanner p))))]"
    using getFloatValue_next [of p] assms ex
    by (simp add: factor.simps Let_def see_def)
  ultimately show ?thesis by (rule conjI)
qed

text \<open>C2 (amended) at the literal \<^verbatim>\<open>2.5\<close> of \<^verbatim>\<open>(int) 2.5 + 1\<close>.\<close>

theorem C2_amended_witness:
  "isFloatCast int_cast_operand_state = [False] \<and> see T_RNUMBER int_cast_operand_state \<and>
   see T_ADDOP (next int_cast_operand_state) \<and>
   code (factor int_cast_operand_state) = [(PUSH, IntArg (IntOfFloat 2.5))]"
proof -
  have c: "isFloatCast int_cast_operand_state = [False]" by code_simp
  have h: "see T_RNUMBER int_cast_operand_state \<and> lastToken int_cast_operand_state \<noteq> T_MULOP \<and>
      lastToken int_cast_operand_state \<noteq> T_ADDOP \<and> lastToken int_cast_operand_state \<noteq> T_CMP \<and>
      \<not> see T_RNUMBER (next int_cast_operand_state) \<and> see T_ADDOP (next int_cast_operand_state)"
    by code_simp
  have v: "code int_cast_operand_state = [] \<and>
      getFloatValue (scanner int_cast_operand_state) = 2.5"
    by code_simp
  from C2_amended [of int_cast_operand_state] c h v show ?thesis by simp
qed

text \<open>
  C3 (the code at the failing input): in \<^verbatim>\<open>begin float x = (int) - 2.5 end\<close> the float
  literal directly follows the operator \<^verbatim>\<open>-\<close>, so \<^verbatim>\<open>factor\<close> pushes it and returns before
  the statement that empties the coercion context: after the push the context still
  holds the \<^verbatim>\<open>(int)\<close> cast. In \<^verbatim>\<open>begin float x = (int) - 2.5; float y = 1.5 end\<close> the
  surviving cast reaches the literal of the next declaration, which is pushed converted
  to int. Neither program records an error.
\<close>

theorem C3_failing_input:
  "cerr (compile 0 negated_cast_program) = [] \<and>
   code (compile 0 negated_cast_program) =
     [(PUSH, FloatArg (CFloat 2.5)), (INVERT, NoArg), (STORE, IntArg (CInt 0)), (STOP, NoArg)] \<and>
   isFloatCast (compile 0 negated_cast_program) = [False] \<and>
   cerr (compile 0 leak_program) = [] \<and>
   code (compile 0 leak_program) =
     [(PUSH, FloatArg (CFloat 2.5)), (INVERT, NoArg), (STORE, IntArg (CInt 0)),
      (PUSH, FloatArg (FloatOfInt (IntOfFloat 1.5))), (STORE, IntArg (CInt 1)), (STOP, NoArg)]"
  by code_simp

section \<open>The symbol table\<close>

text \<open>
  C8: declaring a name that is already in the symbol table records the "already
  declared" error (and sets the error flag) and leaves the symbol table, in particular
  the binding of that name, unchanged.
\<close>

theorem C8_redeclaration:
  assumes "variables p var = Some v"
  shows "cerr (snd (addVariable var isFloat p)) = cerr p @ [AlreadyDeclared var] \<and>
         error (snd (addVariable var isFloat p)) \<and>
         variables (snd (addVariable var isFloat p)) = variables p \<and>
         variables (snd (addVariable var isFloat p)) var = Some v"
  using assms by (simp add: addVariable_def reportError_def Let_def)

text \<open>C8 at a second declaration of \<^verbatim>\<open>x\<close>, now as a float.\<close>

theorem C8_redeclaration_witness:
  "variables declared_state ''x'' = Some (0, False) \<and>
   cerr declared_state = [] \<and>
   cerr (snd (addVariable ''x'' True declared_state)) = [AlreadyDeclared ''x''] \<and>
   error (snd (addVariable ''x'' True declared_state)) \<and>
   variables (snd (addVariable ''x'' True declared_state)) ''x'' = Some (0, False)"
proof -
  have h: "variables declared_state ''x'' = Some (0, False)" by code_simp
  have c: "cerr declared_state = []" by code_simp
  from C8_redeclaration [OF h, of True] h c show ?thesis by simp
qed

subsection \<open>Looking a name up\<close>

text \<open>
  The mark of undefined behaviour is set by \<^verbatim>\<open>findVariable\<close> only and is never cleared.
\<close>

lemma ub_stays [simp]:
  "undefinedBehaviour p \<Longrightarrow> undefinedBehaviour (statementList p)"
  "undefinedBehaviour p \<Longrightarrow> undefinedBehaviour (statement p)"
  "undefinedBehaviour p \<Longrightarrow> undefinedBehaviour (relation p)"
  "undefinedBehaviour p \<Longrightarrow> undefinedBehaviour (expression p)"
  "undefinedBehaviour p \<Longrightarrow> undefinedBehaviour (factor p)"
  "undefinedBehaviour p \<Longrightarrow> undefinedBehaviour (program p)"
proof -
  have pr: "\<And>p m. undefinedBehaviour p \<Longrightarrow> undefinedBehaviour (reportError m p)"
    "\<And>p m. undefinedBehaviour p \<Longrightarrow> undefinedBehaviour (reportError m (p\<lparr>error := True\<rparr>))"
    "\<And>p v b. undefinedBehaviour p \<Longrightarrow> undefinedBehaviour (snd (addVariable v b p))"
    "\<And>p v. undefinedBehaviour p \<Longrightarrow> undefinedBehaviour (snd (findVariable v p))"
    by (simp_all add: reportError_def addVariable_def findVariable_def Let_def
                 split: option.split)
  note pp = parser_preserves [of undefinedBehaviour, OF _ _ _ pr(1) pr(2) _ pr(3) pr(4)]
  show "undefinedBehaviour p \<Longrightarrow> undefinedBehaviour (statementList p)" using pp(1) [of p] by simp
  show "undefinedBehaviour p \<Longrightarrow> undefinedBehaviour (statement p)" using pp(3) [of p] by simp
  show "undefinedBehaviour p \<Longrightarrow> undefinedBehaviour (relation p)" using pp(4) [of p] by simp
  show "undefinedBehaviour p \<Longrightarrow> undefinedBehaviour (expression p)" using pp(5) [of p] by simp
  show "undefinedBehaviour p \<Longrightarrow> undefinedBehaviour (factor p)" using pp(9) [of p] by simp
  show "undefinedBehaviour p \<Longrightarrow> undefinedBehaviour (program p)"
    by (rule program_preserves [of undefinedBehaviour, OF _ _ _ pr(1) pr(2) _ pr(3) pr(4)])
       simp_all
qed

lemma ub_findVariable [simp]:
  "variables p n = None \<Longrightarrow> undefinedBehaviour (snd (findVariable n p))"
  by (simp add: findVariable_def)

lemma ub_prims [simp]:
  "undefinedBehaviour (on_codegen f p) = undefinedBehaviour p"
  "undefinedBehaviour (reportError m p) = undefinedBehaviour p"
  "undefinedBehaviour (snd (codegen_reserve p)) = undefinedBehaviour p"
  "undefinedBehaviour (snd (addVariable v b p)) = undefinedBehaviour p"
  by (simp_all add: on_codegen_def reportError_def codegen_reserve_def addVariable_def Let_def
               split: option.split)

lemma ub_scanning [simp]:
  "undefinedBehaviour (next p) = undefinedBehaviour p"
  "undefinedBehaviour (snd (match t p)) = undefinedBehaviour p"
  "undefinedBehaviour (mustBe t p) = undefinedBehaviour p"
proof -
  let ?P = "\<lambda>q. undefinedBehaviour q = undefinedBehaviour p"
  have "?P p" by simp
  note fr = prims_preserve [of ?P, OF _ _ _ _ _ this]
  show "undefinedBehaviour (next p) = undefinedBehaviour p"
    by (rule fr(1)) (simp_all add: reportError_def)
  show "undefinedBehaviour (snd (match t p)) = undefinedBehaviour p"
    by (rule fr(2)) (simp_all add: reportError_def)
  show "undefinedBehaviour (mustBe t p) = undefinedBehaviour p"
    by (rule fr(3)) (simp_all add: reportError_def)
qed

lemma determinate_steps [simp]:
  "determinate p \<Longrightarrow> determinate (next p)"
  "determinate p \<Longrightarrow> determinate (snd (match t p))"
  "determinate p \<Longrightarrow> determinate (mustBe t p)"
  "determinate p \<Longrightarrow> determinate (reportError m p)"
  "determinate p \<Longrightarrow> determinate (p\<lparr>isFloatCast := c\<rparr>)"
  "determinate p \<Longrightarrow> determinate (snd (addVariable v b p))"
  "determinate p \<Longrightarrow> determinate (snd (findVariable v p))"
  "determinate p \<Longrightarrow> determinate (snd (codegen_reserve p))"
proof -
  assume d: "determinate p"
  show "determinate (next p)" using d by (simp add: determinate_def)
  show "determinate (snd (match t p))" using d by (simp add: determinate_def)
  show "determinate (mustBe t p)" using d by (simp add: determinate_def)
  show "determinate (reportError m p)" using d by (simp add: determinate_def)
  show "determinate (p\<lparr>isFloatCast := c\<rparr>)" using d by (simp add: determinate_def)
  show "determinate (snd (addVariable v b p))" using d by (simp add: determinate_def)
  show "determinate (snd (findVariable v p))"
    using d by (cases "variables p v") (auto simp: determinate_def findVariable_def)
  show "determinate (snd (codegen_reserve p))" using d by (auto simp: determinate_def)
qed


lemma determinate_emitAt [simp]:
  "determinate p \<Longrightarrow> determinate (on_codegen (emitAt i opc (IntArg (CInt a))) p)"
proof -
  assume d: "determinate p"
  have "set ((code p)[nat i := (opc, IntArg (CInt a))])
          \<subseteq> insert (opc, IntArg (CInt a)) (set (code p))"
    by (rule set_update_subset_insert)
  then show ?thesis using d by (auto simp: determinate_def)
qed







subsection \<open>Address allocation\<close>

lemma first_index_append_mem:
  "name \<in> set calls \<Longrightarrow> first_index name (calls @ [v]) = first_index name calls"
  by (simp add: first_index_def takeWhile_append1)

lemma first_index_append_fresh:
  "name \<notin> set calls \<Longrightarrow> first_index name (calls @ [name]) = length calls"
  unfolding first_index_def by (induction calls) auto

lemma first_index_less: "name \<in> set calls \<Longrightarrow> first_index name calls < length calls"
  unfolding first_index_def by (induction calls) auto

lemma first_index_nth: "name \<in> set calls \<Longrightarrow> calls ! first_index name calls = name"
  using first_index_less [of name calls] nth_length_takeWhile [of "\<lambda>n. n \<noteq> name" calls]
  by (simp add: first_index_def)

lemma first_index_take: "name \<notin> set (take (first_index name calls) calls)"
  unfolding first_index_def by (metis set_takeWhileD takeWhile_eq_take)

lemma redeclarations_snoc:
  "redeclarations (xs @ [x]) = redeclarations xs + (if x \<in> set xs then 1 else 0)"
proof -
  have "filter (\<lambda>i. (xs @ [x]) ! i \<in> set (take i (xs @ [x]))) [0..<length xs] =
        filter (\<lambda>i. xs ! i \<in> set (take i xs)) [0..<length xs]"
    by (rule filter_cong) (auto simp: nth_append)
  then show ?thesis by (simp add: redeclarations_def)
qed

lemma length_distinct_redeclarations: "length xs = card (set xs) + redeclarations xs"
proof (induction xs rule: rev_induct)
  case Nil
  show ?case by (simp add: redeclarations_def)
next
  case (snoc x xs)
  then show ?case by (simp add: redeclarations_snoc card_insert_if)
qed

lemma vars_inv_addVariable:
  assumes "vars_inv p"
  shows "vars_inv (snd (addVariable v b p))"
proof (cases "variables p v")
  case None
  with assms have fresh: "v \<notin> set (addVariableLog p)" by (simp add: vars_inv_def)
  show ?thesis
    using assms None fresh
    by (auto simp: vars_inv_def addVariable_def Let_def first_index_append_fresh
        first_index_append_mem)
next
  case (Some w)
  with assms have "v \<in> set (addVariableLog p)" by (simp add: vars_inv_def)
  then show ?thesis
    using assms Some
    by (auto simp: vars_inv_def addVariable_def Let_def reportError_def first_index_append_mem)
qed

lemma first_index_distinct:
  assumes "distinct calls" and "i < length calls"
  shows "first_index (calls ! i) calls = i"
proof -
  have m: "calls ! i \<in> set calls" using assms(2) by simp
  have "calls ! first_index (calls ! i) calls = calls ! i" by (rule first_index_nth [OF m])
  then show ?thesis
    using assms first_index_less [OF m] by (simp add: nth_eq_iff_index_eq)
qed

lemma vars_inv_program:
  assumes "vars_inv p"
  shows "vars_inv (program p)"
proof (rule program_preserves [of vars_inv, OF _ _ _ _ _ _ _ _ assms])
  show "\<And>p v b. vars_inv p \<Longrightarrow> vars_inv (snd (addVariable v b p))"
    by (rule vars_inv_addVariable)
qed (simp_all add: vars_inv_def reportError_def findVariable_def split: option.split)

lemma vars_inv_parse: "vars_inv (parse (new_Parser sc))"
proof -
  have "vars_inv (new_Parser sc)" by (simp add: vars_inv_def new_Parser_def next_def)
  then have "vars_inv (program (new_Parser sc))" by (rule vars_inv_program)
  then show ?thesis by (simp add: parse_def Let_def vars_inv_def on_codegen_def)
qed

lemma distinct_unless_error:
  "\<not> error (parse (new_Parser sc)) \<longrightarrow> distinct (addVariableLog (parse (new_Parser sc)))"
proof -
  let ?P = "\<lambda>q::'a Parser. vars_inv q \<and> (\<not> error q \<longrightarrow> distinct (addVariableLog q))"
  have av: "?P (snd (addVariable v b q))" if "?P q" for v b q
  proof (cases "variables q v")
    case None
    with that have "v \<notin> set (addVariableLog q)" by (simp add: vars_inv_def)
    then show ?thesis
      using that None vars_inv_addVariable [of q v b] by (simp add: addVariable_def Let_def)
  next
    case (Some w)
    then show ?thesis
      using that vars_inv_addVariable [of q v b]
      by (simp add: addVariable_def Let_def reportError_def)
  qed
  have init: "?P (new_Parser sc)" by (simp add: vars_inv_def new_Parser_def next_def)
  have "?P (program (new_Parser sc))"
    by (rule program_preserves [of ?P, OF _ _ _ _ _ _ av _ init])
       (simp_all add: vars_inv_def reportError_def findVariable_def split: option.split)
  then show ?thesis by (simp add: parse_def Let_def on_codegen_def)
qed

text \<open>
  C7 (as stated, refuted): addresses are claimed to be assigned with no gaps. In
  \<^verbatim>\<open>begin int x = 1; int x = 2; int y = 3 end\<close> the only variables are \<^verbatim>\<open>x\<close> and \<^verbatim>\<open>y\<close>;
  \<^verbatim>\<open>x\<close> is bound to address 0 and \<^verbatim>\<open>y\<close>, the second variable declared, to address 2.
\<close>

theorem C7_counterexample:
  "addVariableLog (compile 0 redeclaration_program) = [''x'', ''x'', ''y''] \<and>
   variables (compile 0 redeclaration_program) ''x'' = Some (0, False) \<and>
   variables (compile 0 redeclaration_program) ''y'' = Some (2, False)"
  by code_simp

text \<open>
  C7 (amended): for every token stream, at the end of the pass every variable of the
  symbol table is bound to the number of \<^verbatim>\<open>addVariable\<close> calls made before the call that
  declared it, whatever its declared type; every name passed to \<^verbatim>\<open>addVariable\<close> is bound;
  no address is bound to two names; a variable declared earlier has the smaller address;
  the variable declared first has address 0; and as long as no name is declared twice,
  which is the case whenever no error has been recorded, the addresses have no gaps:
  the variable of the \<open>i\<close>-th call has address \<open>i\<close>.
\<close>

theorem C7_amended:
  "(variables (parse (new_Parser sc)) name = Some (a, fl) \<longrightarrow>
      name \<in> set (addVariableLog (parse (new_Parser sc))) \<and>
      a = int (first_index name (addVariableLog (parse (new_Parser sc))))) \<and>
   (name \<in> set (addVariableLog (parse (new_Parser sc))) \<longrightarrow>
      variables (parse (new_Parser sc)) name \<noteq> None) \<and>
   (variables (parse (new_Parser sc)) n1 = Some (a, f1) \<and>
    variables (parse (new_Parser sc)) n2 = Some (a, f2) \<longrightarrow> n1 = n2) \<and>
   (variables (parse (new_Parser sc)) n1 = Some (a1, f1) \<and>
    variables (parse (new_Parser sc)) n2 = Some (a2, f2) \<and>
    first_index n1 (addVariableLog (parse (new_Parser sc)))
      < first_index n2 (addVariableLog (parse (new_Parser sc))) \<longrightarrow> a1 < a2) \<and>
   (addVariableLog (parse (new_Parser sc)) \<noteq> [] \<longrightarrow>
      (\<exists>f. variables (parse (new_Parser sc)) (hd (addVariableLog (parse (new_Parser sc))))
             = Some (0, f))) \<and>
   (distinct (addVariableLog (parse (new_Parser sc))) \<and>
    i < length (addVariableLog (parse (new_Parser sc))) \<longrightarrow>
      (\<exists>f. variables (parse (new_Parser sc)) (addVariableLog (parse (new_Parser sc)) ! i)
             = Some (int i, f))) \<and>
   (\<not> error (parse (new_Parser sc)) \<longrightarrow> distinct (addVariableLog (parse (new_Parser sc))))"
proof -
  define s where "s = parse (new_Parser sc)"
  define calls where "calls = addVariableLog s"
  have inv: "vars_inv s" unfolding s_def by (rule vars_inv_parse)
  have dom: "\<And>n. n \<in> set calls \<longleftrightarrow> variables s n \<noteq> None"
    using inv unfolding vars_inv_def calls_def by blast
  have addr: "\<And>n a f. variables s n = Some (a, f) \<Longrightarrow> a = int (first_index n calls)"
    using inv unfolding vars_inv_def calls_def by blast
  have c1: "variables s name = Some (a, fl) \<longrightarrow> name \<in> set calls \<and> a = int (first_index name calls)"
    using dom addr by auto
  have c2: "name \<in> set calls \<longrightarrow> variables s name \<noteq> None"
    using dom by simp
  have c3: "variables s n1 = Some (a, f1) \<and> variables s n2 = Some (a, f2) \<longrightarrow> n1 = n2"
  proof
    assume h: "variables s n1 = Some (a, f1) \<and> variables s n2 = Some (a, f2)"
    then have m: "n1 \<in> set calls" "n2 \<in> set calls" using dom by auto
    from h have "a = int (first_index n1 calls)" "a = int (first_index n2 calls)"
      using addr [of n1 a f1] addr [of n2 a f2] by simp_all
    then have eq: "first_index n1 calls = first_index n2 calls" by simp
    have "n1 = calls ! first_index n1 calls" by (rule first_index_nth [OF m(1), symmetric])
    also have "\<dots> = calls ! first_index n2 calls" by (simp only: eq)
    also have "\<dots> = n2" by (rule first_index_nth [OF m(2)])
    finally show "n1 = n2" .
  qed
  have c4: "variables s n1 = Some (a1, f1) \<and> variables s n2 = Some (a2, f2) \<and>
      first_index n1 calls < first_index n2 calls \<longrightarrow> a1 < a2"
    using addr [of n1 a1 f1] addr [of n2 a2 f2] by auto
  have c5: "calls \<noteq> [] \<longrightarrow> (\<exists>f. variables s (hd calls) = Some (0, f))"
  proof
    assume ne: "calls \<noteq> []"
    then have "hd calls \<in> set calls" by simp
    then obtain a f where v: "variables s (hd calls) = Some (a, f)" using dom by fastforce
    have "first_index (hd calls) calls = 0" using ne by (cases calls) (simp_all add: first_index_def)
    then show "\<exists>f. variables s (hd calls) = Some (0, f)" using addr [OF v] v by simp
  qed
  have c6: "distinct calls \<and> i < length calls \<longrightarrow>
      (\<exists>f. variables s (calls ! i) = Some (int i, f))"
  proof
    assume h: "distinct calls \<and> i < length calls"
    then have "calls ! i \<in> set calls" by simp
    then obtain a f where v: "variables s (calls ! i) = Some (a, f)" using dom by fastforce
    from addr [OF v] first_index_distinct [of calls i] h have "a = int i" by simp
    then show "\<exists>f. variables s (calls ! i) = Some (int i, f)" using v by simp
  qed
  have c7: "\<not> error s \<longrightarrow> distinct calls"
    unfolding s_def calls_def by (rule distinct_unless_error)
  from c1 c2 c3 c4 c5 c6 c7 show ?thesis unfolding s_def calls_def by blast
qed

text \<open>C7 (amended) at \<^verbatim>\<open>begin int x = 1; int x = 2; int y = 3 end\<close>.\<close>

theorem C7_amended_witness:
  "variables (compile 0 redeclaration_program) ''y'' = Some (2, False) \<and>
   ''y'' \<in> set (addVariableLog (compile 0 redeclaration_program)) \<and>
   first_index ''y'' (addVariableLog (compile 0 redeclaration_program)) = 2 \<and>
   variables (compile 0 redeclaration_program) ''x'' = Some (0, False) \<and>
   first_index ''x'' (addVariableLog (compile 0 redeclaration_program)) = 0"
proof -
  have y: "variables (compile 0 redeclaration_program) ''y'' = Some (2, False)" by code_simp
  have x: "variables (compile 0 redeclaration_program) ''x'' = Some (0, False)" by code_simp
  from C7_amended [of "new_Scanner 0 redeclaration_program" "''y''" 2 False, THEN conjunct1]
       C7_amended [of "new_Scanner 0 redeclaration_program" "''x''" 0 False, THEN conjunct1] x y
  show ?thesis by (simp add: compile_def)
qed

lemma symbols_frame:
  "lastVar (snd (match t p)) = lastVar p \<and> variables (snd (match t p)) = variables p"
  "lastVar (mustBe t p) = lastVar p \<and> variables (mustBe t p) = variables p"
proof -
  let ?P = "\<lambda>q. lastVar q = lastVar p \<and> variables q = variables p"
  have "?P p" by simp
  note fr = prims_preserve [of ?P, OF _ _ _ _ _ this]
  show "lastVar (snd (match t p)) = lastVar p \<and> variables (snd (match t p)) = variables p"
    by (rule fr(2)) (simp_all add: reportError_def)
  show "lastVar (mustBe t p) = lastVar p \<and> variables (mustBe t p) = variables p"
    by (rule fr(3)) (simp_all add: reportError_def)
qed

lemma last_code_emit [simp]: "last (code (on_codegen (emit opc arg) p)) = (opc, arg)"
  by simp

text \<open>
  C9: when the name is already declared, \<^verbatim>\<open>addVariable\<close> reports the error, returns the
  value of the address counter and increments the counter; the \<^verbatim>\<open>STORE\<close> that ends the
  duplicate declaration (\<^verbatim>\<open>int\<close> or \<^verbatim>\<open>float\<close>) carries that returned address. At the end
  of every pass the counter is the number of \<^verbatim>\<open>addVariable\<close> calls, the address returned by
  a redeclaring call (the position of the call) is bound to no variable, and the address
  of every variable is the number of distinct names declared before it plus the number
  of redeclarations made before it.
\<close>

theorem C9_redeclaration_address:
  "(variables p var = Some v \<longrightarrow>
      fst (addVariable var isFloat p) = fst (lastVar p) \<and>
      fst (lastVar (snd (addVariable var isFloat p))) = fst (lastVar p) + 1 \<and>
      cerr (snd (addVariable var isFloat p)) = cerr p @ [AlreadyDeclared var]) \<and>
   (see T_INT p \<and>
    variables p (getStringValue (scanner (mustBe T_IDENTIFIER (snd (match T_INT p))))) \<noteq> None
      \<longrightarrow> last (code (statement p)) = (STORE, IntArg (CInt (fst (lastVar p))))) \<and>
   (see T_FLOAT p \<and>
    variables p (getStringValue (scanner (mustBe T_IDENTIFIER (snd (match T_FLOAT p))))) \<noteq> None
      \<longrightarrow> last (code (statement p)) = (STORE, IntArg (CInt (fst (lastVar p))))) \<and>
   fst (lastVar (parse (new_Parser sc))) = int (length (addVariableLog (parse (new_Parser sc)))) \<and>
   (i < length (addVariableLog (parse (new_Parser sc))) \<and>
    addVariableLog (parse (new_Parser sc)) ! i
      \<in> set (take i (addVariableLog (parse (new_Parser sc))))
      \<longrightarrow> variables (parse (new_Parser sc)) n \<noteq> Some (int i, fl)) \<and>
   (variables (parse (new_Parser sc)) n = Some (a, fl) \<longrightarrow>
      a = int (card (set (takeWhile (\<lambda>m. m \<noteq> n) (addVariableLog (parse (new_Parser sc))))))
        + int (redeclarations
                 (takeWhile (\<lambda>m. m \<noteq> n) (addVariableLog (parse (new_Parser sc))))))"
proof -
  define s where "s = parse (new_Parser sc)"
  define calls where "calls = addVariableLog s"
  have inv: "vars_inv s" unfolding s_def by (rule vars_inv_parse)
  have dom: "\<And>n. n \<in> set calls \<longleftrightarrow> variables s n \<noteq> None"
    using inv unfolding vars_inv_def calls_def by blast
  have addr: "\<And>n a f. variables s n = Some (a, f) \<Longrightarrow> a = int (first_index n calls)"
    using inv unfolding vars_inv_def calls_def by blast
  have c1: "variables p var = Some v \<longrightarrow>
      fst (addVariable var isFloat p) = fst (lastVar p) \<and>
      fst (lastVar (snd (addVariable var isFloat p))) = fst (lastVar p) + 1 \<and>
      cerr (snd (addVariable var isFloat p)) = cerr p @ [AlreadyDeclared var]"
    by (simp add: addVariable_def reportError_def Let_def)
  have st: "last (code (statement p)) = (STORE, IntArg (CInt (fst (lastVar p))))"
    if s1: "see t p" and s2: "t = T_INT \<or> t = T_FLOAT"
      and s3: "variables p (getStringValue (scanner (mustBe T_IDENTIFIER (snd (match t p)))))
                 \<noteq> None"
    for t
  proof -
    let ?p1 = "mustBe T_IDENTIFIER (snd (match t p))"
    have fr: "lastVar ?p1 = lastVar p" "variables ?p1 = variables p"
      using symbols_frame(1) [of t p] symbols_frame(2) [of T_IDENTIFIER "snd (match t p)"]
      by simp_all
    obtain w where w: "variables ?p1 (getStringValue (scanner ?p1)) = Some w"
      using s3 fr(2) by auto
    have "fst (addVariable (getStringValue (scanner ?p1)) b ?p1) = fst (lastVar p)" for b
      using w fr(1) by (simp add: addVariable_def reportError_def Let_def)
    then show ?thesis
      using s1 s2 by (subst statement.simps) (auto simp: Let_def see_def fst_match_iff)
  qed
  have c4: "fst (lastVar s) = int (length calls)"
    using inv unfolding vars_inv_def calls_def by blast
  have c5: "i < length calls \<and> calls ! i \<in> set (take i calls) \<longrightarrow>
      variables s n \<noteq> Some (int i, fl)"
  proof (intro impI notI)
    assume h: "i < length calls \<and> calls ! i \<in> set (take i calls)"
      and b: "variables s n = Some (int i, fl)"
    from b have m: "n \<in> set calls" using dom by simp
    from addr [OF b] have i: "first_index n calls = i" by simp
    from first_index_nth [OF m] i have "calls ! i = n" by simp
    moreover from first_index_take [of n calls] i have "n \<notin> set (take i calls)" by simp
    ultimately show False using h by simp
  qed
  have c6: "variables s n = Some (a, fl) \<longrightarrow>
      a = int (card (set (takeWhile (\<lambda>m. m \<noteq> n) calls)))
        + int (redeclarations (takeWhile (\<lambda>m. m \<noteq> n) calls))"
  proof
    assume "variables s n = Some (a, fl)"
    then have "a = int (length (takeWhile (\<lambda>m. m \<noteq> n) calls))"
      using addr by (simp add: first_index_def)
    then show "a = int (card (set (takeWhile (\<lambda>m. m \<noteq> n) calls)))
        + int (redeclarations (takeWhile (\<lambda>m. m \<noteq> n) calls))"
      using length_distinct_redeclarations [of "takeWhile (\<lambda>m. m \<noteq> n) calls"] by simp
  qed
  from c1 st [of T_INT] st [of T_FLOAT] c4 c5 c6 show ?thesis
    unfolding s_def calls_def by blast
qed

text \<open>
  C9 at a second declaration of \<^verbatim>\<open>x\<close> and at
  \<^verbatim>\<open>begin int x = 1; int x = 2; int y = 3 end\<close>.
\<close>

theorem C9_redeclaration_address_witness:
  "variables declared_state ''x'' = Some (0, False) \<and>
   fst (lastVar declared_state) = 1 \<and>
   fst (addVariable ''x'' True declared_state) = 1 \<and>
   fst (lastVar (snd (addVariable ''x'' True declared_state))) = 2 \<and>
   see T_INT redeclaring_state \<and>
   last (code (statement redeclaring_state)) = (STORE, IntArg (CInt 1)) \<and>
   addVariableLog (compile 0 redeclaration_program) = [''x'', ''x'', ''y''] \<and>
   variables (compile 0 redeclaration_program) ''y'' = Some (2, False) \<and>
   variables (compile 0 redeclaration_program) ''y'' \<noteq> Some (1, False) \<and>
   int (card (set (takeWhile (\<lambda>m. m \<noteq> ''y'')
          (addVariableLog (compile 0 redeclaration_program))))) +
   int (redeclarations (takeWhile (\<lambda>m. m \<noteq> ''y'')
          (addVariableLog (compile 0 redeclaration_program)))) = 2"
proof -
  have h1: "variables declared_state ''x'' = Some (0, False)"
    and h1': "fst (lastVar declared_state) = 1"
    by code_simp+
  have h2: "see T_INT redeclaring_state"
    and h2': "variables redeclaring_state
        (getStringValue (scanner (mustBe T_IDENTIFIER (snd (match T_INT redeclaring_state)))))
        \<noteq> None"
    and h2'': "fst (lastVar redeclaring_state) = 1"
    by code_simp+
  have h3: "addVariableLog (compile 0 redeclaration_program) = [''x'', ''x'', ''y'']"
    and h3': "variables (compile 0 redeclaration_program) ''y'' = Some (2, False)"
    by code_simp+
  note t = C9_redeclaration_address
  have a: "fst (addVariable ''x'' True declared_state) = 1 \<and>
      fst (lastVar (snd (addVariable ''x'' True declared_state))) = 2"
    using t [where p = declared_state and var = "''x''" and v = "(0, False)" and isFloat = True,
             THEN conjunct1] h1 h1' by simp
  have b: "last (code (statement redeclaring_state)) = (STORE, IntArg (CInt 1))"
    using t [where p = redeclaring_state, THEN conjunct2, THEN conjunct1] h2 h2' h2'' by simp
  have c: "variables (parse (new_Parser (new_Scanner 0 redeclaration_program))) ''y''
             \<noteq> Some (int 1, False)"
    using t [where sc = "new_Scanner 0 redeclaration_program" and i = 1 and n = "''y''"
               and fl = False,
             THEN conjunct2, THEN conjunct2, THEN conjunct2, THEN conjunct2, THEN conjunct1]
      h3 by (simp add: compile_def)
  have d: "2 = int (card (set (takeWhile (\<lambda>m. m \<noteq> ''y'')
                (addVariableLog (parse (new_Parser (new_Scanner 0 redeclaration_program)))))))
            + int (redeclarations (takeWhile (\<lambda>m. m \<noteq> ''y'')
                (addVariableLog (parse (new_Parser (new_Scanner 0 redeclaration_program))))))"
    using t [where sc = "new_Scanner 0 redeclaration_program" and n = "''y''"
               and fl = False and a = 2,
             THEN conjunct2, THEN conjunct2, THEN conjunct2, THEN conjunct2, THEN conjunct2]
      h3' unfolding compile_def by (rule mp)
  from c have c': "variables (compile 0 redeclaration_program) ''y'' \<noteq> Some (1, False)"
    by (simp add: compile_def)
  from d have d': "int (card (set (takeWhile (\<lambda>m. m \<noteq> ''y'')
          (addVariableLog (compile 0 redeclaration_program))))) +
      int (redeclarations (takeWhile (\<lambda>m. m \<noteq> ''y'')
          (addVariableLog (compile 0 redeclaration_program)))) = 2"
    unfolding compile_def by (rule sym)
  from h1 h1' a h2 b h3 h3' c' d' show ?thesis by blast
qed

section \<open>Control flow and backpatching\<close>

text \<open>
  No procedure changes an instruction that was in the buffer when it was called, except
  through an address it reserved itself: the buffer on entry is a prefix of the buffer
  on return.
\<close>

lemma code_prefix:
  fixes p1 p2 p3 p4 p5 p6 p7 p8 p9 :: "'f Parser"
  shows "\<forall>c. prefix c (code p1) \<longrightarrow> prefix c (code (statementList p1))"
    and "\<forall>c. prefix c (code p2) \<longrightarrow> prefix c (code (statementList_while p2))"
    and "\<forall>c. prefix c (code p3) \<longrightarrow> prefix c (code (statement p3))"
    and "\<forall>c. prefix c (code p4) \<longrightarrow> prefix c (code (relation p4))"
    and "\<forall>c. prefix c (code p5) \<longrightarrow> prefix c (code (expression p5))"
    and "\<forall>c. prefix c (code p6) \<longrightarrow> prefix c (code (expression_while p6))"
    and "\<forall>c. prefix c (code p7) \<longrightarrow> prefix c (code (term p7))"
    and "\<forall>c. prefix c (code p8) \<longrightarrow> prefix c (code (term_while p8))"
    and "\<forall>c. prefix c (code p9) \<longrightarrow> prefix c (code (factor p9))"
proof (induct p1 and p2 and p3 and p4 and p5 and p6 and p7 and p8 and p9 rule: parser_induct)
  case (1 p) then show ?case by (simp add: statementList.simps)
next
  case (2 p) then show ?case by (subst statementList_while.simps) (simp add: Let_def)
next
  case (3 p) then show ?case
    by (subst statement.simps) (simp add: Let_def prefix_list_update prefix_length_le)
next
  case (4 p) then show ?case by (subst relation.simps) (simp add: Let_def)
next
  case (5 p) then show ?case by (simp add: expression.simps)
next
  case (6 p) then show ?case by (subst expression_while.simps) (simp add: Let_def)
next
  case (7 p) then show ?case by (simp add: "term.simps")
next
  case (8 p) then show ?case by (subst term_while.simps) (simp add: Let_def)
next
  case (9 p) then show ?case by (subst factor.simps) (simp add: Let_def)
qed

text \<open>
  C5: for every \<^verbatim>\<open>if\<close> statement with an \<^verbatim>\<open>else\<close>. Let \<open>p1\<close> be the parser after the
  condition, \<open>p2\<close> after the first \<^verbatim>\<open>reserve\<close>, \<open>p4\<close> after the \<^verbatim>\<open>then\<close> branch, \<open>p5\<close> after
  the second \<^verbatim>\<open>reserve\<close>, \<open>p6\<close> at the start and \<open>p7\<close> at the end of the \<^verbatim>\<open>else\<close> branch.
  The first placeholder is at address \<open>length (code p1)\<close> and the second at
  \<open>length (code p4)\<close>; the \<^verbatim>\<open>else\<close> branch only appends to the buffer of \<open>p6\<close>, so its first
  instruction has address \<open>length (code p6)\<close> and the address after its last instruction
  is \<open>length (code p7)\<close>, the length of the code of the whole statement. In the code of
  the statement the first placeholder holds \<^verbatim>\<open>JUMP_NO\<close> to \<open>length (code p6)\<close> and the
  second holds \<^verbatim>\<open>JUMP\<close> to \<open>length (code p7)\<close>. In particular, for
  \<^verbatim>\<open>begin if 1 = 2 then write(1) else write(2) fi end\<close> the \<^verbatim>\<open>JUMP_NO\<close> at address 3 targets
  address 7, the first instruction of the \<^verbatim>\<open>else\<close> branch, and the \<^verbatim>\<open>JUMP\<close> at address 6
  targets address 9, right after the \<^verbatim>\<open>PRINT\<close> of 2.
\<close>

theorem C5_if_else_patching:
  fixes p :: "'f Parser"
  defines "p1 \<equiv> relation (snd (match T_IF p))"
    and "p2 \<equiv> snd (codegen_reserve (relation (snd (match T_IF p))))"
  defines "p4 \<equiv> statementList (mustBe T_THEN p2)"
  defines "p5 \<equiv> snd (codegen_reserve (snd (match T_ELSE p4)))"
  defines "p6 \<equiv> on_codegen (emitAt (int (length (code p1))) JUMP_NO
                    (IntArg (CInt (getCurrentAddress (codegen p5))))) p5"
  defines "p7 \<equiv> statementList p6"
  shows "(see T_IF p \<and> see T_ELSE p4 \<longrightarrow>
           code p2 = code p1 @ [(NOP, NoArg)] \<and>
           code p5 = code p4 @ [(NOP, NoArg)] \<and>
           length (code p1) < length (code p4) \<and>
           length (code p6) = length (code p4) + 1 \<and>
           prefix (code p6) (code p7) \<and>
           length (code (statement p)) = length (code p7) \<and>
           code (statement p) ! length (code p1)
             = (JUMP_NO, IntArg (CInt (int (length (code p6))))) \<and>
           code (statement p) ! length (code p4)
             = (JUMP, IntArg (CInt (int (length (code p7)))))) \<and>
         code (compile 0 if_program) =
           [(PUSH, IntArg (CInt 1)), (PUSH, IntArg (CInt 2)), (COMPARE, IntArg (CInt 0)),
            (JUMP_NO, IntArg (CInt 7)),
            (PUSH, IntArg (CInt 1)), (PRINT, NoArg),
            (JUMP, IntArg (CInt 9)),
            (PUSH, IntArg (CInt 2)), (PRINT, NoArg),
            (STOP, NoArg)]"
proof -
  have ex: "code (compile 0 if_program) =
           [(PUSH, IntArg (CInt 1)), (PUSH, IntArg (CInt 2)), (COMPARE, IntArg (CInt 0)),
            (JUMP_NO, IntArg (CInt 7)),
            (PUSH, IntArg (CInt 1)), (PRINT, NoArg),
            (JUMP, IntArg (CInt 9)),
            (PUSH, IntArg (CInt 2)), (PRINT, NoArg),
            (STOP, NoArg)]"
    by code_simp
  have gen: "code p2 = code p1 @ [(NOP, NoArg)] \<and>
           code p5 = code p4 @ [(NOP, NoArg)] \<and>
           length (code p1) < length (code p4) \<and>
           length (code p6) = length (code p4) + 1 \<and>
           prefix (code p6) (code p7) \<and>
           length (code (statement p)) = length (code p7) \<and>
           code (statement p) ! length (code p1)
             = (JUMP_NO, IntArg (CInt (int (length (code p6))))) \<and>
           code (statement p) ! length (code p4)
             = (JUMP, IntArg (CInt (int (length (code p7)))))"
    if tif: "see T_IF p" and tel: "see T_ELSE p4"
  proof -
    have c2: "code p2 = code p1 @ [(NOP, NoArg)]" by (simp add: p2_def p1_def)
    have c5: "code p5 = code p4 @ [(NOP, NoArg)]" by (simp add: p5_def)
    have "prefix (code p2) (code p4)"
      using code_prefix(1) [of "mustBe T_THEN p2"] by (simp add: p4_def)
    then have "length (code p2) \<le> length (code p4)" by (rule prefix_length_le)
    then have lt: "length (code p1) < length (code p4)" using c2 by simp
    have c6: "code p6 = (code p4 @ [(NOP, NoArg)])
                [length (code p1) := (JUMP_NO, IntArg (CInt (1 + int (length (code p4)))))]"
      by (simp add: p6_def c5)
    then have l6: "length (code p6) = length (code p4) + 1" by simp
    have pre: "prefix (code p6) (code p7)"
      using code_prefix(1) [of p6] by (simp add: p7_def)
    then have l7: "length (code p4) < length (code p7)"
      using prefix_length_le [OF pre] l6 by simp
    have st: "statement p = mustBe T_FI (on_codegen (emitAt (int (length (code p4))) JUMP
                (IntArg (CInt (int (length (code p7)))))) p7)"
      using tif tel
      by (subst statement.simps)
         (simp add: Let_def see_def fst_match_iff p1_def p2_def p4_def p5_def p6_def p7_def)
    then have cs: "code (statement p) =
        (code p7)[length (code p4) := (JUMP, IntArg (CInt (int (length (code p7)))))]"
      by simp
    have len: "length (code (statement p)) = length (code p7)" using cs by simp
    have "code (statement p) ! length (code p1) = code p7 ! length (code p1)"
      using cs lt by simp
    also have "\<dots> = code p6 ! length (code p1)"
      using pre lt l6 by (intro prefix_nth) simp_all
    also have "\<dots> = (JUMP_NO, IntArg (CInt (int (length (code p6)))))"
      using lt l6 by (simp add: c6)
    finally have jn: "code (statement p) ! length (code p1)
             = (JUMP_NO, IntArg (CInt (int (length (code p6)))))" .
    have j: "code (statement p) ! length (code p4)
             = (JUMP, IntArg (CInt (int (length (code p7)))))"
      using cs l7 by simp
    from c2 c5 lt l6 pre len jn j show ?thesis by blast
  qed
  from gen ex show ?thesis by blast
qed

text \<open>C5 at the \<^verbatim>\<open>if\<close> statement of that program.\<close>

theorem C5_if_else_patching_witness:
  "see T_IF if_statement_state \<and>
   code (relation (snd (match T_IF if_statement_state)))
     = [(PUSH, IntArg (CInt 1)), (PUSH, IntArg (CInt 2)), (COMPARE, IntArg (CInt 0))] \<and>
   code (statement if_statement_state) ! 3 = (JUMP_NO, IntArg (CInt 7)) \<and>
   code (statement if_statement_state) ! 6 = (JUMP, IntArg (CInt 9)) \<and>
   length (code (statement if_statement_state)) = 9"
proof -
  let ?p1 = "relation (snd (match T_IF if_statement_state))"
  let ?p4 = "statementList (mustBe T_THEN (snd (codegen_reserve ?p1)))"
  let ?p5 = "snd (codegen_reserve (snd (match T_ELSE ?p4)))"
  let ?p6 = "on_codegen (emitAt (int (length (code ?p1))) JUMP_NO
                    (IntArg (CInt (getCurrentAddress (codegen ?p5))))) ?p5"
  let ?p7 = "statementList ?p6"
  have h1: "see T_IF if_statement_state" by code_simp
  have h2: "see T_ELSE ?p4" by code_simp
  have c1: "code ?p1 = [(PUSH, IntArg (CInt 1)), (PUSH, IntArg (CInt 2)),
      (COMPARE, IntArg (CInt 0))]"
    by code_simp
  have l4: "length (code ?p4) = 6" by code_simp
  have l6: "length (code ?p6) = 7" by code_simp
  have l7: "length (code ?p7) = 9" by code_simp
  have l1: "length (code ?p1) = 3" using c1 by simp
  from C5_if_else_patching [of if_statement_state, THEN conjunct1] h1 h2
  have A: "length (code (statement if_statement_state)) = length (code ?p7)"
    and B: "code (statement if_statement_state) ! length (code ?p1)
        = (JUMP_NO, IntArg (CInt (int (length (code ?p6)))))"
    and C: "code (statement if_statement_state) ! length (code ?p4)
        = (JUMP, IntArg (CInt (int (length (code ?p7)))))"
    by blast+
  note A' = A [unfolded l7] and B' = B [unfolded l6, unfolded l1] and C' = C [unfolded l7, unfolded l4]
  from A' B' C' h1 c1 show ?thesis by simp
qed

text \<open>
  C6 (as stated, refuted): for \<^verbatim>\<open>begin int x = 1; while x < 5 do x = x + 1 od; write(x) end\<close>
  the patched \<^verbatim>\<open>JUMP_NO\<close> is claimed to target the address immediately after the
  \<^verbatim>\<open>PRINT\<close> of \<^verbatim>\<open>write\<close>. The \<^verbatim>\<open>PRINT\<close> is at address 12 and the \<^verbatim>\<open>JUMP_NO\<close>, at address 5,
  targets address 11, not 13.
\<close>

theorem C6_counterexample:
  "code (compile 0 while_program) ! 12 = (PRINT, NoArg) \<and>
   code (compile 0 while_program) ! 5 = (JUMP_NO, IntArg (CInt 11)) \<and>
   code (compile 0 while_program) ! 5 \<noteq> (JUMP_NO, IntArg (CInt 13))"
  by code_simp

text \<open>
  C6 (amended): for that program the loop's trailing \<^verbatim>\<open>JUMP\<close> (address 10) targets the
  address of the first instruction of the condition evaluation (address 2), and the
  patched \<^verbatim>\<open>JUMP_NO\<close> (address 5) targets the address immediately after that trailing
  \<^verbatim>\<open>JUMP\<close> (address 11), which holds the first instruction emitted for \<^verbatim>\<open>write(x)\<close>, the
  \<^verbatim>\<open>LOAD\<close> before its \<^verbatim>\<open>PRINT\<close>. No error is recorded.
\<close>

theorem C6_amended:
  "cerr (compile 0 while_program) = [] \<and>
   code (compile 0 while_program) =
     [(PUSH, IntArg (CInt 1)), (STORE, IntArg (CInt 0)),
      (LOAD, IntArg (CInt 0)), (PUSH, IntArg (CInt 5)), (COMPARE, IntArg (CInt 2)),
      (JUMP_NO, IntArg (CInt 11)),
      (LOAD, IntArg (CInt 0)), (PUSH, IntArg (CInt 1)), (ADD, NoArg), (STORE, IntArg (CInt 0)),
      (JUMP, IntArg (CInt 2)),
      (LOAD, IntArg (CInt 0)), (PRINT, NoArg), (STOP, NoArg)]"
  by code_simp

section \<open>Errors suppress the output\<close>

lemma error_inv_program:
  assumes "error_inv p"
  shows "error_inv (program p)"
  by (rule program_preserves [of error_inv, OF _ _ _ _ _ _ _ _ assms])
     (auto simp: error_inv_def reportError_def addVariable_def findVariable_def Let_def
           split: option.splits)

lemma error_inv_new_Parser: "error_inv (new_Parser sc)"
  by (simp add: error_inv_def new_Parser_def next_def)

lemma error_stays [simp]:
  "error p \<Longrightarrow> error (statementList p)"
  "error p \<Longrightarrow> error (statement p)"
  "error p \<Longrightarrow> error (relation p)"
  "error p \<Longrightarrow> error (expression p)"
  "error p \<Longrightarrow> error (factor p)"
  "error p \<Longrightarrow> error (program p)"
proof -
  have pr: "\<And>p m. error p \<Longrightarrow> error (reportError m p)"
    "\<And>p v b. error p \<Longrightarrow> error (snd (addVariable v b p))"
    "\<And>p v. error p \<Longrightarrow> error (snd (findVariable v p))"
    by (simp_all add: reportError_def addVariable_def findVariable_def Let_def
                 split: option.split)
  note pp = parser_preserves [of error, OF _ _ _ pr(1) _ _ pr(2) pr(3)]
  show "error p \<Longrightarrow> error (statementList p)" using pp(1) [of p] by (simp add: reportError_def)
  show "error p \<Longrightarrow> error (statement p)" using pp(3) [of p] by (simp add: reportError_def)
  show "error p \<Longrightarrow> error (relation p)" using pp(4) [of p] by (simp add: reportError_def)
  show "error p \<Longrightarrow> error (expression p)" using pp(5) [of p] by (simp add: reportError_def)
  show "error p \<Longrightarrow> error (factor p)" using pp(9) [of p] by (simp add: reportError_def)
  show "error p \<Longrightarrow> error (program p)"
    by (rule program_preserves [of error, OF _ _ _ pr(1) _ _ pr(2) pr(3)])
       (simp_all add: reportError_def)
qed

text \<open>
  C4: for every token stream (every scanner the parser is constructed on), if at least
  one error is recorded during the pass, \<^verbatim>\<open>flush\<close> is never invoked and the output sink
  stays empty; if no error is recorded, \<^verbatim>\<open>flush\<close> is invoked exactly once, on the
  instruction sequence of the whole program. An error recorded at any point stays
  recorded: no procedure clears the error flag.
\<close>

theorem C4_flush_iff_no_error:
  "(cerr (program (new_Parser sc)) \<noteq> [] \<longrightarrow>
      out (codegen (parse (new_Parser sc))) = [] \<and>
      cerr (parse (new_Parser sc)) = cerr (program (new_Parser sc))) \<and>
   (cerr (program (new_Parser sc)) = [] \<longrightarrow>
      out (codegen (parse (new_Parser sc))) = [code (program (new_Parser sc))] \<and>
      cerr (parse (new_Parser sc)) = []) \<and>
   (error p \<longrightarrow>
      error (statementList p) \<and> error (statement p) \<and> error (relation p) \<and>
      error (expression p) \<and> error (factor p) \<and> error (program p) \<and>
      out (codegen (parse p)) = out (codegen p))"
proof -
  have "error p \<longrightarrow> out (codegen (parse p)) = out (codegen p)"
  proof
    assume e: "error p"
    have "out (codegen (program p)) = out (codegen p)"
      by (rule program_preserves [of "\<lambda>q. out (codegen q) = out (codegen p)"])
         (simp_all add: reportError_def addVariable_def findVariable_def Let_def
                   split: option.split)
    then show "out (codegen (parse p)) = out (codegen p)"
      using e by (simp add: parse_def Let_def)
  qed
  then show ?thesis
    using error_inv_program [OF error_inv_new_Parser, of sc]
    by (auto simp: error_inv_def parse_def Let_def on_codegen_def flush_def code_def)
qed

text \<open>C4 at \<^verbatim>\<open>begin write(1 +) end\<close> and at \<^verbatim>\<open>begin int x = (float) 3; write(x) end\<close>.\<close>

theorem C4_flush_iff_no_error_witness:
  "cerr (program (new_Parser (new_Scanner 0 syntax_error_program))) \<noteq> [] \<and>
   out (codegen (compile 0 syntax_error_program)) = [] \<and>
   cerr (program (new_Parser (new_Scanner 0 cast_program))) = [] \<and>
   out (codegen (compile 0 cast_program)) =
     [[(PUSH, IntArg (CInt 3)), (STORE, IntArg (CInt 0)), (LOAD, IntArg (CInt 0)),
       (PRINT, NoArg), (STOP, NoArg)]] \<and>
   error (reportError StatementExpected (new_Parser (new_Scanner 0 cast_program))) \<and>
   error (program (reportError StatementExpected (new_Parser (new_Scanner 0 cast_program)))) \<and>
   out (codegen (parse (reportError StatementExpected
      (new_Parser (new_Scanner 0 cast_program))))) = []"
proof -
  have e: "cerr (program (new_Parser (new_Scanner 0 syntax_error_program))) \<noteq> []"
    by code_simp
  have g: "cerr (program (new_Parser (new_Scanner 0 cast_program))) = []"
    by code_simp
  have c: "code (program (new_Parser (new_Scanner 0 cast_program))) =
     [(PUSH, IntArg (CInt 3)), (STORE, IntArg (CInt 0)), (LOAD, IntArg (CInt 0)),
       (PRINT, NoArg), (STOP, NoArg)]"
    by code_simp
  have r: "error (reportError StatementExpected (new_Parser (new_Scanner 0 cast_program)))"
    and o: "out (codegen (reportError StatementExpected
              (new_Parser (new_Scanner 0 cast_program)))) = []"
    by code_simp+
  note t = C4_flush_iff_no_error
  have a1: "out (codegen (compile 0 syntax_error_program)) = []"
    using t [where sc = "new_Scanner 0 syntax_error_program", THEN conjunct1] e
    by (simp add: compile_def)
  have a2: "out (codegen (compile 0 cast_program)) =
     [[(PUSH, IntArg (CInt 3)), (STORE, IntArg (CInt 0)), (LOAD, IntArg (CInt 0)),
       (PRINT, NoArg), (STOP, NoArg)]]"
    using t [where sc = "new_Scanner 0 cast_program", THEN conjunct2, THEN conjunct1] g c
    by (simp add: compile_def)
  have a3: "error (program (reportError StatementExpected
               (new_Parser (new_Scanner 0 cast_program)))) \<and>
      out (codegen (parse (reportError StatementExpected
        (new_Parser (new_Scanner 0 cast_program))))) = []"
    using t [where p = "reportError StatementExpected (new_Parser (new_Scanner 0 cast_program))",
             THEN conjunct2, THEN conjunct2] r o
    by simp
  from e a1 g a2 r a3 show ?thesis by blast
qed


end
